theory Spec2Isabelle
  imports Complex_Main
begin

section \<open>Hybrid PyMuPDF + OCR chunking: a shallow embedding\<close>

text \<open>
  The development embeds \<^verbatim>\<open>src/hybrid_chunking.py\<close> (class
  \<^verbatim>\<open>HybridPyMuPDFOCRChunker\<close>) and the orchestrator of
  \<^verbatim>\<open>src/databricks_hybrid_chunking.py\<close>.

  Conventions.
  \<^item> A Python \<^verbatim>\<open>str\<close> is a \<open>string\<close>; a character is one of the 256 code
    points of Latin-1, classified as Python 3 classifies it. Text with other code
    points is outside the model.
  \<^item> A Python \<^verbatim>\<open>int\<close> is an \<open>int\<close>, a length or a count a \<open>nat\<close>.
  \<^item> A Python \<^verbatim>\<open>float\<close> is an IEEE binary64 number. All floats of this
    program are non-negative multiples of \<open>2\<^sup>-\<^sup>5\<^sup>6\<close>, so a float is
    represented by the number of such units it holds, and every operation
    rounds to nearest, ties to even, at 53 significant bits.
  \<^item> An exception is a value \<open>Inl e\<close> of a sum type.
  \<^item> A regular expression is an abstract syntax tree of the fragment of
    Python's \<^verbatim>\<open>re\<close> language that the configuration uses, run by a
    backtracking matcher that lists the possible ends of a match in the order
    in which Python tries them.
\<close>

subsection \<open>Characters and the string methods used\<close>

definition code :: "char \<Rightarrow> nat" where
  "code c = of_char c"

text \<open>\<^verbatim>\<open>\d\<close> on the Latin-1 range: the ten ASCII digits.\<close>

definition py_isdigit :: "char \<Rightarrow> bool" where
  "py_isdigit c = (48 \<le> code c \<and> code c \<le> 57)"

text \<open>\<^verbatim>\<open>str.isspace\<close> and \<^verbatim>\<open>\s\<close>: code points 9-13, 28-32, 133 and 160.\<close>

definition py_isspace :: "char \<Rightarrow> bool" where
  "py_isspace c =
     ((9 \<le> code c \<and> code c \<le> 13) \<or> (28 \<le> code c \<and> code c \<le> 32)
      \<or> code c = 133 \<or> code c = 160)"

text \<open>\<^verbatim>\<open>\w\<close>: the alphanumeric code points (\<^verbatim>\<open>str.isalnum\<close>) and the underscore.\<close>

definition py_isword :: "char \<Rightarrow> bool" where
  "py_isword c =
     ((48 \<le> code c \<and> code c \<le> 57) \<or> (65 \<le> code c \<and> code c \<le> 90) \<or> code c = 95
      \<or> (97 \<le> code c \<and> code c \<le> 122) \<or> code c = 170 \<or> code c = 178
      \<or> code c = 179 \<or> code c = 181 \<or> code c = 185 \<or> code c = 186
      \<or> (188 \<le> code c \<and> code c \<le> 190) \<or> (192 \<le> code c \<and> code c \<le> 214)
      \<or> (216 \<le> code c \<and> code c \<le> 246) \<or> (248 \<le> code c \<and> code c \<le> 255))"

text \<open>
  \<^verbatim>\<open>str.lower\<close> on one character: the upper-case letters are the code points
  65-90, 192-214 and 216-222, and the lower-case letter is 32 higher (bit 5 set).
\<close>

definition py_isupper :: "char \<Rightarrow> bool" where
  "py_isupper c =
     ((65 \<le> code c \<and> code c \<le> 90) \<or> (192 \<le> code c \<and> code c \<le> 214)
      \<or> (216 \<le> code c \<and> code c \<le> 222))"

definition lower_char :: "char \<Rightarrow> char" where
  "lower_char c =
     (if py_isupper c
      then (case c of Char b0 b1 b2 b3 b4 b5 b6 b7 \<Rightarrow> Char b0 b1 b2 b3 b4 True b6 b7)
      else c)"

definition py_lower :: "string \<Rightarrow> string" where
  "py_lower s = map lower_char s"

text \<open>\<^verbatim>\<open>s.strip()\<close>: white space removed at both ends.\<close>

definition py_strip :: "string \<Rightarrow> string" where
  "py_strip s = rev (dropWhile py_isspace (rev (dropWhile py_isspace s)))"

text \<open>
  \<^verbatim>\<open>s.split()\<close>: the maximal runs of characters that are not white space,
  in order. The first argument is the run being read, reversed.
\<close>

fun split_ws :: "string \<Rightarrow> string \<Rightarrow> string list" where
  "split_ws cur [] = (if cur = [] then [] else [rev cur])"
| "split_ws cur (c # cs) =
     (if py_isspace c
      then (if cur = [] then split_ws [] cs else rev cur # split_ws [] cs)
      else split_ws (c # cur) cs)"

definition py_split :: "string \<Rightarrow> string list" where
  "py_split s = split_ws [] s"

text \<open>\<^verbatim>\<open>s.split(sep)\<close> for a separator of one character: empty pieces are kept.\<close>

fun split_sep :: "char \<Rightarrow> string \<Rightarrow> string \<Rightarrow> string list" where
  "split_sep sep cur [] = [rev cur]"
| "split_sep sep cur (c # cs) =
     (if c = sep then rev cur # split_sep sep [] cs else split_sep sep (c # cur) cs)"

definition py_split_on :: "char \<Rightarrow> string \<Rightarrow> string list" where
  "py_split_on sep s = split_sep sep [] s"

text \<open>\<^verbatim>\<open>sep.join(xs)\<close>.\<close>

fun py_join :: "string \<Rightarrow> string list \<Rightarrow> string" where
  "py_join sep [] = []"
| "py_join sep [x] = x"
| "py_join sep (x # y # ys) = x @ sep @ py_join sep (y # ys)"

text \<open>\<^verbatim>\<open>sub in s\<close> for strings.\<close>

fun py_in :: "string \<Rightarrow> string \<Rightarrow> bool" where
  "py_in sub [] = (sub = [])"
| "py_in sub (c # cs) = (take (length sub) (c # cs) = sub \<or> py_in sub cs)"

text \<open>\<^verbatim>\<open>str(n)\<close> for a natural number, as used in the f-strings.\<close>

definition digit_char :: "nat \<Rightarrow> char" where
  "digit_char d = ''0123456789'' ! d"

fun digits_of :: "nat \<Rightarrow> nat \<Rightarrow> string \<Rightarrow> string" where
  "digits_of 0 n acc = acc"
| "digits_of (Suc fuel) n acc =
     (if n < 10 then digit_char n # acc
      else digits_of fuel (n div 10) (digit_char (n mod 10) # acc))"

definition py_str :: "nat \<Rightarrow> string" where
  "py_str n = digits_of (Suc n) n []"

subsection \<open>Floats\<close>

text \<open>
  A float \<open>x\<close> stands for the binary64 number \<open>x / 2\<^sup>5\<^sup>6\<close>. The literals of the
  source are the doubles nearest to the decimal written; for instance
  \<^verbatim>\<open>0.1\<close> is \<open>0x1.999999999999ap-4\<close>, that is \<open>0x1999999999999a\<close> units.
\<close>

type_synonym pyfloat = nat

definition float_val :: "pyfloat \<Rightarrow> rat" where
  "float_val x = of_nat x / 2 ^ 56"

definition f0_0 :: pyfloat where "f0_0 = 0"
definition f0_1 :: pyfloat where "f0_1 = 0x1999999999999a"
definition f0_2 :: pyfloat where "f0_2 = 2 * 0x1999999999999a"
definition f0_3 :: pyfloat where "f0_3 = 4 * 0x13333333333333"
definition f0_4 :: pyfloat where "f0_4 = 4 * 0x1999999999999a"
definition f0_7 :: pyfloat where "f0_7 = 8 * 0x16666666666666"
definition f0_8 :: pyfloat where "f0_8 = 8 * 0x1999999999999a"
definition f1_0 :: pyfloat where "f1_0 = 2 ^ 56"
definition f1_3 :: pyfloat where "f1_3 = 16 * 0x14cccccccccccd"

text \<open>The number of binary digits of a natural number.\<close>

fun bitlen :: "nat \<Rightarrow> nat" where
  "bitlen n = (if n = 0 then 0 else Suc (bitlen (n div 2)))"

declare bitlen.simps [simp del]

text \<open>
  Rounding to nearest, ties to even, on the grid of the multiples of \<open>2 ^ sh\<close>;
  the result is the number of grid steps.
\<close>

definition round_half_even :: "nat \<Rightarrow> nat \<Rightarrow> nat" where
  "round_half_even n sh =
     (let d = 2 ^ sh; q = n div d; r = n mod d
      in if 2 * r < d then q
         else if d < 2 * r then q + 1
         else if even q then q else q + 1)"

text \<open>Rounding to 53 significant bits: what every binary64 operation does to its exact result.\<close>

definition round53 :: "nat \<Rightarrow> nat" where
  "round53 n =
     (if bitlen n \<le> 53 then n
      else round_half_even n (bitlen n - 53) * 2 ^ (bitlen n - 53))"

definition float_add :: "pyfloat \<Rightarrow> pyfloat \<Rightarrow> pyfloat" where
  "float_add x y = round53 (x + y)"

text \<open>
  \<^verbatim>\<open>n * x\<close> for an int \<open>n \<ge> 0\<close> and a float \<open>x\<close>: the int is converted
  to a float, which rounds it, and the product is rounded.
\<close>

definition int_times_float :: "nat \<Rightarrow> pyfloat \<Rightarrow> pyfloat" where
  "int_times_float n x = round53 (round53 n * x)"

text \<open>\<^verbatim>\<open>int(x)\<close> for a float \<open>x \<ge> 0\<close>: truncation.\<close>

definition py_int :: "pyfloat \<Rightarrow> int" where
  "py_int x = int (x div 2 ^ 56)"

text \<open>\<^verbatim>\<open>round(x)\<close> for a float \<open>x \<ge> 0\<close>: the nearest integer, ties to even.\<close>

definition py_round :: "pyfloat \<Rightarrow> int" where
  "py_round x = int (round_half_even x 56)"

subsection \<open>Regular expressions\<close>

text \<open>
  The fragment of \<^verbatim>\<open>re\<close> that the patterns of the source use: literal
  characters, the classes \<^verbatim>\<open>\d\<close>, \<^verbatim>\<open>\s\<close>, \<^verbatim>\<open>\w\<close>, the anchors
  \<^verbatim>\<open>^\<close>, \<^verbatim>\<open>$\<close>, \<^verbatim>\<open>\b\<close>, concatenation, alternation, and the greedy
  repetition of a single character or class (\<^verbatim>\<open>?\<close>, \<^verbatim>\<open>+\<close>, \<^verbatim>\<open>{m,n}\<close>).
\<close>

datatype atom = Chr char | Digit | Space | Wordc

datatype regex =
    Eps
  | Atom atom
  | Bol
  | Eol
  | WordB
  | Seq regex regex
  | Alt regex regex
  | Rep nat "nat option" atom

text \<open>A literal string, and a concatenation of several expressions.\<close>

fun Lit :: "string \<Rightarrow> regex" where
  "Lit [] = Eps"
| "Lit [c] = Atom (Chr c)"
| "Lit (c # d # cs) = Seq (Atom (Chr c)) (Lit (d # cs))"

fun Seqs :: "regex list \<Rightarrow> regex" where
  "Seqs [] = Eps"
| "Seqs [r] = r"
| "Seqs (r # q # rs) = Seq r (Seqs (q # rs))"

fun Alts :: "regex list \<Rightarrow> regex" where
  "Alts [] = Eps"
| "Alts [r] = r"
| "Alts (r # q # rs) = Alt r (Alts (q # rs))"

text \<open>
  The matcher reads a string through a cursor: the characters before the
  position, last first, and the characters after it.
\<close>

type_synonym cursor = "string \<times> string"

text \<open>The flag is \<^verbatim>\<open>re.IGNORECASE\<close>.\<close>

fun atom_ok :: "bool \<Rightarrow> atom \<Rightarrow> char \<Rightarrow> bool" where
  "atom_ok ic (Chr c) x = (if ic then lower_char x = lower_char c else x = c)"
| "atom_ok ic Digit x = py_isdigit x"
| "atom_ok ic Space x = py_isspace x"
| "atom_ok ic Wordc x = py_isword x"

text \<open>
  Greedy repetition of an atom, at least \<open>lo\<close> and at most \<open>hi\<close> times: one more
  character is tried first, and stopping here is the alternative on backtracking.
\<close>

fun rep_atom :: "bool \<Rightarrow> atom \<Rightarrow> nat \<Rightarrow> nat option \<Rightarrow> string \<Rightarrow> string \<Rightarrow> cursor list" where
  "rep_atom ic a lo hi pre [] = (if lo = 0 then [(pre, [])] else [])"
| "rep_atom ic a lo hi pre (c # cs) =
     (if hi \<noteq> Some 0 \<and> atom_ok ic a c
      then rep_atom ic a (lo - 1) (map_option (\<lambda>h. h - 1) hi) (c # pre) cs
      else [])
     @ (if lo = 0 then [(pre, c # cs)] else [])"

text \<open>\<^verbatim>\<open>\b\<close>: exactly one of the two neighbours of the position is a word character.\<close>

definition at_word_boundary :: "cursor \<Rightarrow> bool" where
  "at_word_boundary cur =
     ((case fst cur of [] \<Rightarrow> False | p # _ \<Rightarrow> py_isword p)
      \<noteq> (case snd cur of [] \<Rightarrow> False | n # _ \<Rightarrow> py_isword n))"

text \<open>
  All ends of a match of the expression that starts at the cursor, in the order
  in which the backtracking matcher reaches them. Without \<^verbatim>\<open>re.MULTILINE\<close>,
  \<^verbatim>\<open>^\<close> holds at the start of the string only, and \<^verbatim>\<open>$\<close> at its end or
  before a final newline.
\<close>

fun ms :: "bool \<Rightarrow> regex \<Rightarrow> cursor \<Rightarrow> cursor list" where
  "ms ic Eps cur = [cur]"
| "ms ic (Atom a) cur =
     (case snd cur of
        [] \<Rightarrow> []
      | c # cs \<Rightarrow> if atom_ok ic a c then [(c # fst cur, cs)] else [])"
| "ms ic Bol cur = (if fst cur = [] then [cur] else [])"
| "ms ic Eol cur = (if snd cur = [] \<or> snd cur = [CHR 0x0A] then [cur] else [])"
| "ms ic WordB cur = (if at_word_boundary cur then [cur] else [])"
| "ms ic (Seq r q) cur = concat (map (ms ic q) (ms ic r cur))"
| "ms ic (Alt r q) cur = ms ic r cur @ ms ic q cur"
| "ms ic (Rep lo hi a) cur = rep_atom ic a lo hi (fst cur) (snd cur)"

text \<open>
  \<^verbatim>\<open>re.search(pattern, s)\<close> as a truth value: a match starts at some position,
  the positions tried from left to right.
\<close>

fun search_from :: "bool \<Rightarrow> regex \<Rightarrow> string \<Rightarrow> string \<Rightarrow> bool" where
  "search_from ic r pre [] = (ms ic r (pre, []) \<noteq> [])"
| "search_from ic r pre (c # cs) =
     (ms ic r (pre, c # cs) \<noteq> [] \<or> search_from ic r (c # pre) cs)"

definition re_search :: "bool \<Rightarrow> regex \<Rightarrow> string \<Rightarrow> bool" where
  "re_search ic r s = search_from ic r [] s"

text \<open>
  A pattern with one capturing group at its top level,
  \<^verbatim>\<open>before(number)after\<close>: every pattern whose group the source reads has
  this form. A match keeps the text of the group (\<^verbatim>\<open>group(1)\<close>), and the
  cursors where the match starts and ends (\<^verbatim>\<open>line[m.end():]\<close> is the second
  component of the latter).
\<close>

record numbered_pattern =
  before :: regex
  number_group :: regex
  after :: regex

record re_match_obj =
  group1 :: string
  match_start :: cursor
  match_end :: cursor

definition between :: "cursor \<Rightarrow> cursor \<Rightarrow> string" where
  "between c1 c2 = rev (take (length (fst c2) - length (fst c1)) (fst c2))"

definition matches_at :: "bool \<Rightarrow> numbered_pattern \<Rightarrow> cursor \<Rightarrow> re_match_obj list" where
  "matches_at ic p cur =
     concat (map (\<lambda>c1.
       concat (map (\<lambda>c2.
         map (\<lambda>c3. \<lparr>group1 = between c1 c2, match_start = cur, match_end = c3\<rparr>)
           (ms ic (after p) c2))
         (ms ic (number_group p) c1)))
       (ms ic (before p) cur))"

text \<open>\<^verbatim>\<open>re.match(pattern, s)\<close>: the first match that starts at the start of the string.\<close>

definition re_match :: "numbered_pattern \<Rightarrow> string \<Rightarrow> re_match_obj option" where
  "re_match p s = (case matches_at False p ([], s) of [] \<Rightarrow> None | m # _ \<Rightarrow> Some m)"

text \<open>
  \<^verbatim>\<open>re.findall(pattern, s)\<close> for a pattern with one group: the group of each
  match, the matches found from left to right without overlap. After an empty
  match the search goes on at the same position, where the next match must
  not be empty (the flag).
\<close>

function findall_from :: "numbered_pattern \<Rightarrow> string \<Rightarrow> string \<Rightarrow> bool \<Rightarrow> string list" where
  "findall_from p pre suf adv =
     (case filter (\<lambda>m. adv \<longrightarrow> match_end m \<noteq> (pre, suf)) (matches_at False p (pre, suf)) of
        m # _ \<Rightarrow>
          (if length (snd (match_end m)) < length suf
           then group1 m # findall_from p (fst (match_end m)) (snd (match_end m)) False
           else if \<not> adv then group1 m # findall_from p pre suf True
           else [group1 m])
      | [] \<Rightarrow>
          (case suf of
             [] \<Rightarrow> []
           | c # cs \<Rightarrow> findall_from p (c # pre) cs False))"
  by pat_completeness auto
termination
  by (relation "measure (\<lambda>(p, pre, suf, adv). 2 * length suf + (if adv then 0 else 1))") auto

declare findall_from.simps [simp del]

definition re_findall :: "numbered_pattern \<Rightarrow> string \<Rightarrow> string list" where
  "re_findall p s = findall_from p [] s False"

subsection \<open>Configuration\<close>

text \<open>
  The keys of \<^verbatim>\<open>HYBRID_CHUNKING_CONFIG\<close> that the code reads. The two keys
  that the orchestrator reads with \<^verbatim>\<open>config.get(key, default)\<close> are optional.
\<close>

record config =
  skip_first_pages :: "int option"
  pages_per_partition :: "int option"
  footnote_pattern :: numbered_pattern
  paragraph_number_patterns :: "numbered_pattern list"
  high_number_patterns :: "numbered_pattern list"
  date_patterns :: "regex list"
  header_patterns :: "regex list"

definition months :: "string list" where
  "months = [''January'', ''February'', ''March'', ''April'', ''May'', ''June'', ''July'',
     ''August'', ''September'', ''October'', ''November'', ''December'']"

text \<open>
  \<^verbatim>\<open>HYBRID_CHUNKING_CONFIG\<close>, pattern by pattern in the order of the source;
  the notebook passes the same patterns and adds \<^verbatim>\<open>pages_per_partition = 50\<close>.
\<close>

definition HYBRID_CHUNKING_CONFIG :: config where
  "HYBRID_CHUNKING_CONFIG = \<lparr>
     skip_first_pages = Some 6,
     pages_per_partition = None,
     footnote_pattern =
       \<lparr>before = Bol, number_group = Rep 1 (Some 3) Digit, after = Rep 1 None Space\<rparr>,
     paragraph_number_patterns = [
       \<lparr>before = Bol, number_group = Rep 1 (Some 4) Digit,
        after = Seq (Atom (Chr CHR ''.'')) (Rep 1 None Space)\<rparr>,
       \<lparr>before = Bol, number_group = Rep 1 (Some 4) Digit, after = Atom (Chr CHR ''.'')\<rparr>],
     high_number_patterns = [
       \<lparr>before = Bol, number_group = Rep 4 (Some 4) Digit,
        after = Seq (Atom (Chr CHR ''.'')) (Rep 1 None Space)\<rparr>,
       \<lparr>before = Bol, number_group = Rep 3 (Some 4) Digit,
        after = Seq (Atom (Chr CHR ''.'')) (Rep 1 None Space)\<rparr>],
     date_patterns = [
       Seqs [WordB, Alt (Lit ''19'') (Lit ''20''), Rep 2 (Some 2) Digit, WordB],
       Seqs [WordB, Rep 1 (Some 2) Digit, Rep 1 None Space, Alts (map Lit months),
             Rep 1 None Space, Rep 4 (Some 4) Digit, WordB],
       Seqs [WordB, Rep 1 (Some 2) Digit, Rep 1 None Space, Rep 1 None Wordc,
             Rep 1 None Space, Rep 4 (Some 4) Digit, WordB]],
     header_patterns = [
       Seqs [Lit ''ICC-01/14-01/18-2784-Red'', Rep 1 None Space, Rep 2 (Some 2) Digit,
             Lit ''-'', Rep 2 (Some 2) Digit, Lit ''-'', Rep 4 (Some 4) Digit,
             Rep 1 None Space, Rep 1 None Digit, Lit ''/'', Rep 1 None Digit,
             Rep 1 None Space, Lit ''T''],
       Seqs [Lit ''No.'', Rep 1 None Space, Lit ''ICC-01/14-01/18'', Rep 1 None Space,
             Rep 1 None Digit, Lit ''/'', Rep 1 None Digit, Rep 1 None Space,
             Rep 2 (Some 2) Digit, Rep 1 None Space, Rep 1 None Wordc, Rep 1 None Space,
             Rep 4 (Some 4) Digit],
       Seqs [Bol, Rep 1 None Digit, Lit ''/'', Rep 1 None Digit, Eol],
       Seqs [Bol, Lit ''No.'', Rep 1 None Space, Lit ''ICC-'']]
   \<rparr>"

subsection \<open>Records, errors, the document\<close>

record footnote =
  fn_number :: string
  fn_content :: string
  fn_page :: int
  fn_confidence :: pyfloat
  detection_method :: string
  referenced_paragraphs :: "string list"

record legal_paragraph =
  para_number :: string
  para_content :: string
  para_page :: int
  section_type :: string
  token_count :: int
  footnote_references :: "string list"
  start_line :: int
  end_line :: int
  extraction_method :: string
  para_confidence :: pyfloat

datatype meta_value = MStr string | MFloat pyfloat

record semantic_chunk =
  chunk_id :: string
  chunk_content :: string
  chunk_type :: string
  chunk_page_range :: "int \<times> int"
  paragraph_numbers :: "string list"
  footnote_numbers :: "string list"
  chunk_token_count :: int
  metadata :: "(string \<times> meta_value) list"

datatype py_error =
    TypeError | IndexError | AttributeError | RuntimeError | ValueError | ZeroDivisionError
  | PicklingError | OtherError

text \<open>
  What the program sees of a page of the PDF: the text layer, as
  \<^verbatim>\<open>page.get_text("text")\<close> returns it, and the outcome of rendering the page
  and running the OCR engine on it, a text or an exception. A document gives
  the page at an index, if there is one (\<^verbatim>\<open>self.doc[page_num]\<close> raises
  otherwise).
\<close>

record pdf_page =
  text_layer :: string
  ocr_outcome :: "py_error + string"

type_synonym document = "int \<Rightarrow> pdf_page option"

text \<open>
  The fields of \<^verbatim>\<open>HybridPyMuPDFOCRChunker\<close>. The constructor leaves
  \<^verbatim>\<open>self.doc\<close> at \<^verbatim>\<open>None\<close>; \<^verbatim>\<open>open_document\<close> sets it. An empty
  configuration is falsy and replaced by the default, which a record cannot
  be, so the constructor takes an optional configuration.
\<close>

record chunker =
  ch_config :: config
  doc :: "document option"
  ch_paragraphs :: "legal_paragraph list"
  ch_footnotes :: "footnote list"

definition new_chunker :: "config option \<Rightarrow> chunker" where
  "new_chunker cfg =
     \<lparr>ch_config = (case cfg of None \<Rightarrow> HYBRID_CHUNKING_CONFIG | Some c \<Rightarrow> c),
      doc = None, ch_paragraphs = [], ch_footnotes = []\<rparr>"

definition open_document :: "document \<Rightarrow> chunker \<Rightarrow> chunker" where
  "open_document d ch = ch\<lparr>doc := Some d\<rparr>"

text \<open>\<^verbatim>\<open>self.doc[page_num]\<close>: subscripting \<^verbatim>\<open>None\<close> is a \<^verbatim>\<open>TypeError\<close>.\<close>

definition get_page :: "chunker \<Rightarrow> int \<Rightarrow> py_error + pdf_page" where
  "get_page ch page_num =
     (case doc ch of
        None \<Rightarrow> Inl TypeError
      | Some d \<Rightarrow> (case d page_num of None \<Rightarrow> Inl IndexError | Some pg \<Rightarrow> Inr pg))"

subsection \<open>OCR lines and the header filter\<close>

text \<open>\<^verbatim>\<open>extract_text_with_ocr\<close>: every exception is caught and gives no lines.\<close>

definition extract_text_with_ocr :: "chunker \<Rightarrow> int \<Rightarrow> string list" where
  "extract_text_with_ocr ch page_num =
     (case get_page ch page_num of
        Inl e \<Rightarrow> []
      | Inr pg \<Rightarrow>
          (case ocr_outcome pg of
             Inl e \<Rightarrow> []
           | Inr text \<Rightarrow>
               map py_strip (filter (\<lambda>line. py_strip line \<noteq> []) (py_split_on CHR 0x0A text))))"

definition is_header :: "config \<Rightarrow> string \<Rightarrow> bool" where
  "is_header cfg line = list_ex (\<lambda>pattern. re_search False pattern line) (header_patterns cfg)"

definition clean_headers_footers :: "config \<Rightarrow> string list \<Rightarrow> string list" where
  "clean_headers_footers cfg lines = filter (\<lambda>line. \<not> is_header cfg line) lines"

subsection \<open>Footnotes\<close>

text \<open>
  The citation patterns, which the source writes in \<^verbatim>\<open>_is_valid_footnote_pymupdf\<close>
  and again in \<^verbatim>\<open>_calculate_footnote_confidence\<close>:
  \<^verbatim>\<open>P-\d+:\<close>, \<^verbatim>\<open>T-\d+\<close>, \<^verbatim>\<open>CAR-\<close>, \<^verbatim>\<open>ICC-\<close>, \<^verbatim>\<open>para\.?\s+\d+\<close>,
  \<^verbatim>\<open>p\.\s+\d+\<close>, \<^verbatim>\<open>lines?\s+\d+\<close>, \<^verbatim>\<open>Article\s+\d+\<close>, \<^verbatim>\<open>Rule\s+\d+\<close>.
\<close>

definition witness_ref :: regex where
  "witness_ref = Seqs [Lit ''P-'', Rep 1 None Digit, Lit '':'']"

definition transcript_ref :: regex where
  "transcript_ref = Seqs [Lit ''T-'', Rep 1 None Digit]"

definition document_ref :: regex where
  "document_ref = Lit ''CAR-''"

definition case_ref :: regex where
  "case_ref = Lit ''ICC-''"

definition paragraph_ref :: regex where
  "paragraph_ref =
     Seqs [Lit ''para'', Rep 0 (Some 1) (Chr CHR ''.''), Rep 1 None Space, Rep 1 None Digit]"

definition page_ref :: regex where
  "page_ref = Seqs [Lit ''p.'', Rep 1 None Space, Rep 1 None Digit]"

definition line_ref :: regex where
  "line_ref =
     Seqs [Lit ''line'', Rep 0 (Some 1) (Chr CHR ''s''), Rep 1 None Space, Rep 1 None Digit]"

definition article_ref :: regex where
  "article_ref = Seqs [Lit ''Article'', Rep 1 None Space, Rep 1 None Digit]"

definition rule_ref :: regex where
  "rule_ref = Seqs [Lit ''Rule'', Rep 1 None Space, Rep 1 None Digit]"

definition legal_patterns :: "regex list" where
  "legal_patterns =
     [witness_ref, transcript_ref, document_ref, case_ref, paragraph_ref, page_ref, line_ref,
      article_ref, rule_ref]"

text \<open>The loop over the date patterns, which returns at the first one found.\<close>

fun date_found :: "regex list \<Rightarrow> string \<Rightarrow> bool" where
  "date_found [] content = False"
| "date_found (date_pattern # rest) content =
     (if re_search True date_pattern content then True else date_found rest content)"

definition is_valid_footnote_pymupdf :: "config \<Rightarrow> string \<Rightarrow> string \<Rightarrow> bool" where
  "is_valid_footnote_pymupdf cfg content footnote_num =
     (if length content < 10 then False
      else if date_found (date_patterns cfg) content then False
      else list_ex (\<lambda>pattern. re_search False pattern content) legal_patterns)"

text \<open>One \<^verbatim>\<open>if re.search(...): score += x\<close>.\<close>

definition bump :: "bool \<Rightarrow> pyfloat \<Rightarrow> pyfloat \<Rightarrow> pyfloat" where
  "bump found x score = (if found then float_add score x else score)"

definition calculate_footnote_confidence :: "string \<Rightarrow> pyfloat" where
  "calculate_footnote_confidence content =
     (let score = f0_0;
          score = bump (re_search False witness_ref content) f0_4 score;
          score = bump (re_search False transcript_ref content) f0_3 score;
          score = bump (re_search False document_ref content) f0_2 score;
          score = bump (re_search False case_ref content) f0_2 score;
          score = bump (re_search False paragraph_ref content) f0_1 score;
          score = bump (re_search False page_ref content) f0_1 score;
          score = bump (re_search False article_ref content) f0_1 score;
          score = bump (re_search False rule_ref content) f0_1 score;
          score = bump (50 < length content) f0_1 score
      in min score f1_0)"

text \<open>
  The state of the scan of \<^verbatim>\<open>extract_footnotes_pymupdf\<close>: the footnotes
  emitted, and the footnote that is open, if any.
\<close>

type_synonym fn_state = "footnote list \<times> footnote option"

definition save_footnote :: "fn_state \<Rightarrow> footnote list" where
  "save_footnote st = (case snd st of None \<Rightarrow> fst st | Some f \<Rightarrow> fst st @ [f])"

definition footnote_line :: "config \<Rightarrow> int \<Rightarrow> string \<Rightarrow> fn_state \<Rightarrow> fn_state" where
  "footnote_line cfg page_num raw st =
     (let line = py_strip raw in
      if line = [] then st
      else if is_header cfg line then st
      else (case re_match (footnote_pattern cfg) line of
              Some footnote_match \<Rightarrow>
                (let footnote_num = group1 footnote_match;
                     content = py_strip (snd (match_end footnote_match))
                 in if is_valid_footnote_pymupdf cfg content footnote_num
                    then (save_footnote st,
                          Some \<lparr>fn_number = footnote_num, fn_content = content,
                                fn_page = page_num + 1,
                                fn_confidence = calculate_footnote_confidence content,
                                detection_method = ''pymupdf'',
                                referenced_paragraphs = []\<rparr>)
                    else (save_footnote st, None))
            | None \<Rightarrow>
                (case snd st of
                   Some f \<Rightarrow>
                     if 10 < length line
                     then (fst st, Some (f\<lparr>fn_content := fn_content f @ '' '' @ line\<rparr>))
                     else st
                 | None \<Rightarrow> st)))"

definition footnotes_of_text :: "config \<Rightarrow> int \<Rightarrow> string \<Rightarrow> footnote list" where
  "footnotes_of_text cfg page_num text =
     save_footnote (fold (footnote_line cfg page_num) (py_split_on CHR 0x0A text) ([], None))"

definition extract_footnotes_pymupdf :: "chunker \<Rightarrow> int \<Rightarrow> py_error + footnote list" where
  "extract_footnotes_pymupdf ch page_num =
     (case get_page ch page_num of
        Inl e \<Rightarrow> Inl e
      | Inr pg \<Rightarrow> Inr (footnotes_of_text (ch_config ch) page_num (text_layer pg)))"

subsection \<open>Paragraphs\<close>

definition indicators :: "string list" where
  "indicators = [''chamber'', ''court'', ''evidence'', ''statute'', ''article'']"

definition is_valid_paragraph :: "string \<Rightarrow> bool" where
  "is_valid_paragraph content =
     (if length content < 50 then False
      else if list_ex (\<lambda>indicator. py_in indicator (py_lower content)) indicators then True
      else 10 \<le> length (py_split content))"

text \<open>\<^verbatim>\<open>re.findall(r'(\d{1,3})', content)\<close>.\<close>

definition reference_pattern :: numbered_pattern where
  "reference_pattern = \<lparr>before = Eps, number_group = Rep 1 (Some 3) Digit, after = Eps\<rparr>"

definition extract_footnote_references :: "string \<Rightarrow> string list" where
  "extract_footnote_references content = re_findall reference_pattern content"

text \<open>\<^verbatim>\<open>int(len(content.split()) * 1.3)\<close>.\<close>

definition estimate_tokens :: "string \<Rightarrow> int" where
  "estimate_tokens content = py_int (int_times_float (length (py_split content)) f1_3)"

text \<open>The first pattern of a list that matches at the start of the line.\<close>

fun first_match :: "numbered_pattern list \<Rightarrow> string \<Rightarrow> re_match_obj option" where
  "first_match [] line = None"
| "first_match (pattern # rest) line =
     (case re_match pattern line of Some m \<Rightarrow> Some m | None \<Rightarrow> first_match rest line)"

text \<open>The paragraph patterns first, the high-number patterns if none of them matches.\<close>

definition find_para_match :: "config \<Rightarrow> string \<Rightarrow> re_match_obj option" where
  "find_para_match cfg line =
     (case first_match (paragraph_number_patterns cfg) line of
        Some m \<Rightarrow> Some m
      | None \<Rightarrow> first_match (high_number_patterns cfg) line)"

text \<open>The local variables of \<^verbatim>\<open>extract_paragraphs_ocr\<close>.\<close>

record para_state =
  out_paragraphs :: "legal_paragraph list"
  current_para :: "string list"
  current_num :: "string option"
  seen_numbers :: "string set"

text \<open>
  The block that saves the paragraph being read; the source has it twice, in
  the loop with the line numbers \<open>line_num - len(current_para)\<close> and
  \<open>line_num\<close>, and after the loop with \<open>len(lines) - len(current_para)\<close> and
  \<open>len(lines)\<close>. An empty list, \<^verbatim>\<open>None\<close> and an empty string are falsy.
\<close>

definition save_paragraph :: "int \<Rightarrow> int \<Rightarrow> para_state \<Rightarrow> para_state" where
  "save_paragraph page_num at_line st =
     (case current_num st of
        None \<Rightarrow> st
      | Some num \<Rightarrow>
          if current_para st \<noteq> [] \<and> num \<noteq> [] \<and> num \<notin> seen_numbers st
          then (let content = py_strip (py_join '' '' (current_para st))
                in if is_valid_paragraph content
                   then st\<lparr>out_paragraphs := out_paragraphs st @
                            [\<lparr>para_number = num, para_content = content,
                              para_page = page_num + 1, section_type = ''main_text'',
                              token_count = estimate_tokens content,
                              footnote_references = extract_footnote_references content,
                              start_line = at_line - int (length (current_para st)),
                              end_line = at_line,
                              extraction_method = ''hybrid_ocr'',
                              para_confidence = f0_8\<rparr>],
                          seen_numbers := insert num (seen_numbers st)\<rparr>
                   else st)
          else st)"

definition paragraph_line :: "config \<Rightarrow> int \<Rightarrow> nat \<times> string \<Rightarrow> para_state \<Rightarrow> para_state" where
  "paragraph_line cfg page_num numbered_line st =
     (let line_num = fst numbered_line; line = snd numbered_line in
      case find_para_match cfg line of
        Some para_match \<Rightarrow>
          (let st = save_paragraph page_num (int line_num) st;
               new_num = group1 para_match
           in if new_num \<notin> seen_numbers st
              then st\<lparr>current_num := Some new_num,
                      current_para := [py_strip (snd (match_end para_match))]\<rparr>
              else st\<lparr>current_para := [], current_num := None\<rparr>)
      | None \<Rightarrow>
          if current_para st \<noteq> [] then st\<lparr>current_para := current_para st @ [line]\<rparr>
          else st)"

definition para_init :: para_state where
  "para_init = \<lparr>out_paragraphs = [], current_para = [], current_num = None, seen_numbers = {}\<rparr>"

definition extract_paragraphs_ocr :: "config \<Rightarrow> string list \<Rightarrow> int \<Rightarrow> legal_paragraph list" where
  "extract_paragraphs_ocr cfg lines page_num =
     out_paragraphs
       (save_paragraph page_num (int (length lines))
          (fold (paragraph_line cfg page_num) (enumerate 0 lines) para_init))"

subsection \<open>The page processor\<close>

definition process_page :: "chunker \<Rightarrow> int \<Rightarrow> py_error + legal_paragraph list \<times> footnote list" where
  "process_page ch page_num =
     (case extract_footnotes_pymupdf ch page_num of
        Inl e \<Rightarrow> Inl e
      | Inr fns \<Rightarrow>
          (let lines = extract_text_with_ocr ch page_num in
           if lines = [] then Inr ([], fns)
           else (let cleaned_lines = clean_headers_footers (ch_config ch) lines
                 in Inr (extract_paragraphs_ocr (ch_config ch) cleaned_lines page_num, fns))))"

subsection \<open>The chunk assembler\<close>

text \<open>
  \<^verbatim>\<open>paragraphs_by_page\<close> is a dictionary from page to list; it is kept as an
  association list with one entry for each key.
\<close>

fun add_to_page :: "legal_paragraph \<Rightarrow> (int \<times> legal_paragraph list) list \<Rightarrow> (int \<times> legal_paragraph list) list" where
  "add_to_page para [] = [(para_page para, [para])]"
| "add_to_page para ((k, ps) # rest) =
     (if k = para_page para then (k, ps @ [para]) # rest else (k, ps) # add_to_page para rest)"

definition group_by_page :: "legal_paragraph list \<Rightarrow> (int \<times> legal_paragraph list) list" where
  "group_by_page paras = fold add_to_page paras []"

definition lookup_page :: "(int \<times> legal_paragraph list) list \<Rightarrow> int \<Rightarrow> legal_paragraph list" where
  "lookup_page by_page page_num = (case map_of by_page page_num of None \<Rightarrow> [] | Some ps \<Rightarrow> ps)"

definition paragraph_chunk :: "nat \<Rightarrow> legal_paragraph \<Rightarrow> semantic_chunk" where
  "paragraph_chunk cid para =
     \<lparr>chunk_id = ''para_'' @ py_str cid,
      chunk_content = para_content para,
      chunk_type = ''paragraph'',
      chunk_page_range = (para_page para, para_page para),
      paragraph_numbers = [para_number para],
      footnote_numbers = footnote_references para,
      chunk_token_count = token_count para,
      metadata = [(''extraction_method'', MStr (extraction_method para)),
                  (''confidence'', MFloat (para_confidence para)),
                  (''section_type'', MStr (section_type para))]\<rparr>"

definition footnote_chunk :: "nat \<Rightarrow> footnote \<Rightarrow> semantic_chunk" where
  "footnote_chunk cid fn =
     \<lparr>chunk_id = ''footnote_'' @ py_str cid,
      chunk_content = fn_content fn,
      chunk_type = ''footnote'',
      chunk_page_range = (fn_page fn, fn_page fn),
      paragraph_numbers = [],
      footnote_numbers = [fn_number fn],
      chunk_token_count = estimate_tokens (fn_content fn),
      metadata = [(''detection_method'', MStr (detection_method fn)),
                  (''confidence'', MFloat (fn_confidence fn))]\<rparr>"

text \<open>The chunks built so far and the counter \<^verbatim>\<open>chunk_id\<close>.\<close>

type_synonym chunk_state = "semantic_chunk list \<times> nat"

definition emit_paragraph :: "legal_paragraph \<Rightarrow> chunk_state \<Rightarrow> chunk_state" where
  "emit_paragraph para st = (fst st @ [paragraph_chunk (snd st) para], snd st + 1)"

definition emit_footnote :: "footnote \<Rightarrow> chunk_state \<Rightarrow> chunk_state" where
  "emit_footnote fn st = (fst st @ [footnote_chunk (snd st) fn], snd st + 1)"

definition emit_page :: "(int \<times> legal_paragraph list) list \<Rightarrow> footnote list \<Rightarrow> int \<Rightarrow> chunk_state \<Rightarrow> chunk_state" where
  "emit_page by_page fns page_num st =
     (let page_paragraphs = lookup_page by_page page_num;
          page_footnotes = filter (\<lambda>f. fn_page f = page_num) fns
      in fold emit_footnote page_footnotes (fold emit_paragraph page_paragraphs st))"

definition create_semantic_chunks :: "chunker \<Rightarrow> semantic_chunk list" where
  "create_semantic_chunks ch =
     (let paragraphs_by_page = group_by_page (ch_paragraphs ch)
      in fst (fold (emit_page paragraphs_by_page (ch_footnotes ch))
                (sort (map fst paragraphs_by_page)) ([], 1)))"

subsection \<open>The distributed orchestrator\<close>

text \<open>An entry of the result list of a partition (a dictionary in the source).\<close>

record page_data =
  pd_page :: int
  pd_paragraphs :: "legal_paragraph list"
  pd_footnotes :: "footnote list"
  pd_success :: bool
  pd_error :: "py_error option"

definition failure_entry :: "int \<Rightarrow> py_error \<Rightarrow> page_data" where
  "failure_entry page_num e =
     \<lparr>pd_page = page_num, pd_paragraphs = [], pd_footnotes = [], pd_success = False,
      pd_error = Some e\<rparr>"

text \<open>
  One page of \<^verbatim>\<open>_process_page_partition\<close>. An exception of
  \<^verbatim>\<open>process_page\<close> is caught and recorded. When \<^verbatim>\<open>process_page\<close> returns,
  its result is a pair, which is truthy and has no method \<^verbatim>\<open>get\<close>: building
  the entry raises \<^verbatim>\<open>AttributeError\<close>, which the same handler records.
\<close>

definition process_partition_page :: "chunker \<Rightarrow> int \<Rightarrow> page_data" where
  "process_partition_page ch page_num =
     (case process_page ch page_num of
        Inl e \<Rightarrow> failure_entry page_num e
      | Inr page_result \<Rightarrow> failure_entry page_num AttributeError)"

text \<open>
  The chunker of a partition is constructed and never opened. Neither the
  constructor nor \<^verbatim>\<open>close\<close> can raise, so the outer handler is not entered.
\<close>

definition process_page_partition :: "config \<Rightarrow> int list \<Rightarrow> page_data list" where
  "process_page_partition cfg pages = map (process_partition_page (new_chunker (Some cfg))) pages"

text \<open>\<^verbatim>\<open>range(0, n, step)\<close> for \<open>step > 0\<close>, and \<^verbatim>\<open>range(a, b)\<close> on the integers.\<close>

definition range_step :: "nat \<Rightarrow> nat \<Rightarrow> nat list" where
  "range_step n step = map (\<lambda>k. k * step) [0 ..< (n + step - 1) div step]"

definition py_range :: "int \<Rightarrow> int \<Rightarrow> int list" where
  "py_range a b = [a .. b - 1]"

text \<open>
  The partitions: \<^verbatim>\<open>[pages[i:i + n] for i in range(0, len(pages), n)]\<close>. A step
  of zero is a \<^verbatim>\<open>ValueError\<close>, a negative step an empty range.
\<close>

definition make_partitions :: "int list \<Rightarrow> int \<Rightarrow> py_error + int list list" where
  "make_partitions pages n =
     (if n = 0 then Inl ValueError
      else if n < 0 then Inr []
      else Inr (map (\<lambda>i. take (nat n) (drop i pages)) (range_step (length pages) (nat n))))"

record statistics =
  total_pages_processed :: nat
  successful_pages :: nat
  failed_pages :: nat
  total_paragraphs :: nat
  total_footnotes :: nat

record distributed_result =
  res_paragraphs :: "legal_paragraph list"
  res_footnotes :: "footnote list"
  res_statistics :: statistics

text \<open>The aggregation loop: counters and the two collections.\<close>

record agg_state =
  all_paragraphs :: "legal_paragraph list"
  all_footnotes :: "footnote list"
  n_successful :: nat
  n_failed :: nat

definition aggregate :: "page_data \<Rightarrow> agg_state \<Rightarrow> agg_state" where
  "aggregate page_result st =
     (if pd_success page_result
      then st\<lparr>n_successful := n_successful st + 1,
              all_paragraphs := all_paragraphs st @
                 map (\<lambda>para. para\<lparr>para_page := pd_page page_result\<rparr>) (pd_paragraphs page_result),
              all_footnotes := all_footnotes st @
                 map (\<lambda>fn. fn\<lparr>fn_page := pd_page page_result\<rparr>) (pd_footnotes page_result)\<rparr>
      else st\<lparr>n_failed := n_failed st + 1\<rparr>)"

text \<open>
  The fields of \<^verbatim>\<open>DatabricksHybridChunker\<close> that the orchestrator reads. The
  constructor stores \<^verbatim>\<open>SparkSession.getActiveSession()\<close> in
  \<^verbatim>\<open>self.spark\<close> and raises \<^verbatim>\<open>RuntimeError\<close> when there is none.
\<close>

datatype spark_session = SparkSession

record databricks_chunker =
  dc_pdf_path :: string
  dc_config :: config
  dc_use_databricks :: bool
  dc_spark :: "spark_session option"

definition new_databricks_chunker ::
    "string \<Rightarrow> config \<Rightarrow> bool \<Rightarrow> spark_session option \<Rightarrow> py_error + databricks_chunker" where
  "new_databricks_chunker pdf_path cfg use_databricks active_session =
     (case active_session of
        None \<Rightarrow> Inl RuntimeError
      | Some session \<Rightarrow>
          Inr \<lparr>dc_pdf_path = pdf_path, dc_config = cfg, dc_use_databricks = use_databricks,
               dc_spark = Some session\<rparr>)"

text \<open>
  The parallel runtime, as the source calls it:
  \<^verbatim>\<open>parallelize(page_partitions, len(page_partitions))\<close>, then
  \<^verbatim>\<open>flatMap(self._process_page_partition)\<close>, then \<^verbatim>\<open>collect()\<close>.
  \<^item> \<^verbatim>\<open>parallelize\<close> divides the number of items by the number of slices, so
    an empty list of partitions is a \<^verbatim>\<open>ZeroDivisionError\<close>.
  \<^item> The function is sent to the workers pickled. It is a method bound to
    \<^verbatim>\<open>self\<close>, so \<^verbatim>\<open>self\<close> is pickled with it, and an object that holds a
    Spark session cannot be pickled: \<^verbatim>\<open>collect\<close> raises \<^verbatim>\<open>PicklingError\<close>.
  \<^item> Otherwise the function is applied to each partition and the results are
    concatenated in the order of the partitions.
\<close>

definition picklable :: "databricks_chunker \<Rightarrow> bool" where
  "picklable self = (dc_spark self = None)"

definition run_parallel :: "databricks_chunker \<Rightarrow> int list list \<Rightarrow> py_error + page_data list" where
  "run_parallel self page_partitions =
     (if page_partitions = [] then Inl ZeroDivisionError
      else if \<not> picklable self then Inl PicklingError
      else Inr (concat (map (process_page_partition (dc_config self)) page_partitions)))"

text \<open>The partitions that \<^verbatim>\<open>process_document_distributed\<close> builds before it calls the runtime.\<close>

definition page_partitions_of :: "config \<Rightarrow> int \<Rightarrow> py_error + int list list" where
  "page_partitions_of cfg total_pages =
     (let skip_pages = (case skip_first_pages cfg of None \<Rightarrow> 6 | Some k \<Rightarrow> k);
          start_page = skip_pages + 1;
          pages_to_process = py_range start_page (total_pages + 1);
          per_partition = (case pages_per_partition cfg of None \<Rightarrow> 50 | Some k \<Rightarrow> k)
      in make_partitions pages_to_process per_partition)"

text \<open>
  \<^verbatim>\<open>process_document_distributed\<close>. The second argument is what
  \<^verbatim>\<open>_get_pdf_metadata\<close> returns, the page count or 0. The times of the
  statistics depend on the clock and are left out.
\<close>

definition process_document_distributed ::
    "databricks_chunker \<Rightarrow> int \<Rightarrow> py_error + distributed_result" where
  "process_document_distributed self total_pages =
     (if total_pages = 0 then Inl RuntimeError
      else
        (case page_partitions_of (dc_config self) total_pages of
           Inl e \<Rightarrow> Inl e
         | Inr page_partitions \<Rightarrow>
             (case run_parallel self page_partitions of
                Inl e \<Rightarrow> Inl e
              | Inr all_results \<Rightarrow>
                  (let agg = fold aggregate all_results
                               \<lparr>all_paragraphs = [], all_footnotes = [],
                                n_successful = 0, n_failed = 0\<rparr>
                   in Inr \<lparr>res_paragraphs = all_paragraphs agg,
                           res_footnotes = all_footnotes agg,
                           res_statistics =
                             \<lparr>total_pages_processed = length all_results,
                              successful_pages = n_successful agg,
                              failed_pages = n_failed agg,
                              total_paragraphs = length (all_paragraphs agg),
                              total_footnotes = length (all_footnotes agg)\<rparr>\<rparr>))))"

subsection \<open>Digit runs\<close>

text \<open>
  The maximal runs of digits of a string, in order: the characters before the
  first digit are skipped, the digits up to the next character that is not a
  digit are a run, and so on behind it.
\<close>

function digit_runs :: "string \<Rightarrow> string list" where
  "digit_runs s =
     (case dropWhile (\<lambda>c. \<not> py_isdigit c) s of
        [] \<Rightarrow> []
      | d # t \<Rightarrow> (d # takeWhile py_isdigit t) # digit_runs (dropWhile py_isdigit t))"
  by pat_completeness auto
termination
proof (relation "measure length")
  show "wf (measure length)" by simp
next
  fix s :: string and d t
  assume "dropWhile (\<lambda>c. \<not> py_isdigit c) s = d # t"
  then have "length (d # t) \<le> length s"
    by (metis length_dropWhile_le)
  moreover have "length (dropWhile py_isdigit t) \<le> length t"
    by (rule length_dropWhile_le)
  ultimately show "(dropWhile py_isdigit t, s) \<in> measure length"
    by simp
qed

declare digit_runs.simps [simp del]

text \<open>
  The reading of the specification, in its words: the standalone digit runs of
  one to three digits, that is, the digit runs that are not part of a longer
  digit run and have at most three digits.
\<close>

definition standalone_digit_runs :: "string \<Rightarrow> string list" where
  "standalone_digit_runs s = filter (\<lambda>r. length r \<le> 3) (digit_runs s)"

text \<open>A run cut from the left into pieces of three digits; the last piece may be shorter.\<close>

fun pieces3 :: "string \<Rightarrow> string list" where
  "pieces3 (a # b # c # rest) = [a, b, c] # pieces3 rest"
| "pieces3 [] = []"
| "pieces3 short = [short]"

definition digit_pieces :: "string \<Rightarrow> string list" where
  "digit_pieces s = concat (map pieces3 (digit_runs s))"

text \<open>The next character, if there is one, is not a digit.\<close>

definition no_digit_ahead :: "string \<Rightarrow> bool" where
  "no_digit_ahead s = (case s of [] \<Rightarrow> True | c # _ \<Rightarrow> \<not> py_isdigit c)"

subsection \<open>The origin of a footnote\<close>


subsection \<open>Example inputs\<close>

text \<open>
  A document whose page 6 has a text layer with one footnote and on which the
  OCR engine fails, and the footnote that the text layer holds.
\<close>

definition example_chunker :: chunker where
  "example_chunker =
     open_document
       (\<lambda>i. if i = 6
             then Some \<lparr>text_layer = ''12 P-0123: witness statement, para. 45'',
                        ocr_outcome = Inl OtherError\<rparr>
             else None)
       (new_chunker None)"

definition example_footnote :: footnote where
  "example_footnote =
     \<lparr>fn_number = ''12'', fn_content = ''P-0123: witness statement, para. 45'',
      fn_page = 7, fn_confidence = 2 ^ 55, detection_method = ''pymupdf'',
      referenced_paragraphs = []\<rparr>"

text \<open>An OCR line that opens paragraph 1 and the paragraph read from it on page index 0.\<close>

definition example_line :: string where
  "example_line = ''1. The Chamber recalls its decision of 2014 on the matter before it''"

definition example_content :: string where
  "example_content = ''The Chamber recalls its decision of 2014 on the matter before it''"

definition example_paragraph :: legal_paragraph where
  "example_paragraph =
     \<lparr>para_number = ''1'', para_content = example_content, para_page = 1,
      section_type = ''main_text'', token_count = 15,
      footnote_references = [''201'', ''4''], start_line = 0, end_line = 1,
      extraction_method = ''hybrid_ocr'', para_confidence = f0_8\<rparr>"



text \<open>A second OCR line, whose numbers have at most three digits, and its paragraph.\<close>

definition example_line2 :: string where
  "example_line2 = ''2. The Chamber refers to notes 12 and 345 of the decision at hand''"

definition example_content2 :: string where
  "example_content2 = ''The Chamber refers to notes 12 and 345 of the decision at hand''"

definition example_paragraph2 :: legal_paragraph where
  "example_paragraph2 =
     \<lparr>para_number = ''2'', para_content = example_content2, para_page = 1,
      section_type = ''main_text'', token_count = 16,
      footnote_references = [''12'', ''345''], start_line = 0, end_line = 1,
      extraction_method = ''hybrid_ocr'', para_confidence = f0_8\<rparr>"

section \<open>Rounding\<close>

lemma bitlen_bounds: "n < 2 ^ bitlen n \<and> (0 < n \<longrightarrow> 2 ^ (bitlen n - 1) \<le> n)"
proof (induction n rule: bitlen.induct)
  case (1 n)
  show ?case
  proof (cases "n = 0")
    case True
    then show ?thesis by (simp add: bitlen.simps)
  next
    case False
    then have bl: "bitlen n = Suc (bitlen (n div 2))"
      by (subst bitlen.simps) simp
    from 1 False have ih: "n div 2 < 2 ^ bitlen (n div 2)"
      "0 < n div 2 \<longrightarrow> 2 ^ (bitlen (n div 2) - 1) \<le> n div 2"
      by simp_all
    have up: "n < 2 ^ bitlen n"
      using ih(1) bl by simp
    have lo: "2 ^ (bitlen n - 1) \<le> n"
    proof (cases "n div 2 = 0")
      case True
      then have "bitlen (n div 2) = 0" by (simp add: bitlen.simps)
      with bl False show ?thesis by simp
    next
      case nz: False
      then have "2 ^ (bitlen (n div 2) - 1) \<le> n div 2" using ih(2) by simp
      moreover have "0 < bitlen (n div 2)"
        using nz by (subst bitlen.simps) simp
      then have "(2::nat) ^ bitlen (n div 2) = 2 * 2 ^ (bitlen (n div 2) - 1)"
        by (cases "bitlen (n div 2)") simp_all
      ultimately show ?thesis using bl by simp
    qed
    from up lo show ?thesis by simp
  qed
qed

lemma round_half_even_bounds:
  "n div 2 ^ sh \<le> round_half_even n sh \<and> round_half_even n sh \<le> n div 2 ^ sh + 1
   \<and> (n mod 2 ^ sh = 0 \<longrightarrow> round_half_even n sh = n div 2 ^ sh)"
  by (simp add: round_half_even_def Let_def)

text \<open>A multiple of the grid step below \<open>n\<close> is below \<open>n\<close> rounded down to the grid.\<close>

lemma multiple_le_round_down:
  fixes d :: nat
  assumes "d dvd r" "r \<le> n" "0 < d"
  shows "r \<le> (n div d) * d"
proof -
  from assms(1) obtain k where k: "r = d * k" by (auto simp: dvd_def)
  with assms(2,3) have "k \<le> n div d"
    by (metis div_le_mono nonzero_mult_div_cancel_left less_numeral_extra(3))
  then show ?thesis using k by (simp add: mult.commute)
qed

lemma multiple_ge_round_up:
  fixes d :: nat
  assumes "d dvd r" "n \<le> r" "0 < d" "n mod d \<noteq> 0"
  shows "(n div d + 1) * d \<le> r"
proof -
  from assms(1) obtain k where k: "r = d * k" by (auto simp: dvd_def)
  have "n div d < k"
  proof (rule ccontr)
    assume "\<not> n div d < k"
    then have "k \<le> n div d" by simp
    then have "d * k \<le> d * (n div d)" by simp
    also have "\<dots> < n" using assms(4)
      by (metis mod_eq_0_iff_dvd dvd_div_mult_self mult.commute div_mult_mod_eq
          less_add_same_cancel1 neq0_conv)
    finally show False using assms(2) k by simp
  qed
  then have "n div d + 1 \<le> k" by simp
  then have "(n div d + 1) * d \<le> k * d" by (rule mult_le_mono1)
  then show ?thesis using k by (simp add: mult.commute)
qed

text \<open>Rounding is monotone against representable numbers, from below and from above.\<close>

lemma round53_lower:
  assumes r: "r = m * 2 ^ e" "m < 2 ^ 53" and le: "r \<le> n"
  shows "r \<le> round53 n"
proof (cases "bitlen n \<le> 53")
  case True
  then show ?thesis using le by (simp add: round53_def)
next
  case False
  define sh where "sh = bitlen n - 53"
  define d :: nat where "d = 2 ^ sh"
  have sh: "bitlen n = 53 + sh" using False by (simp add: sh_def)
  have npos: "0 < n" using False by (cases "n = 0") (simp_all add: bitlen.simps)
  have down: "(n div d) * d \<le> round53 n"
    using False round_half_even_bounds [of n sh] by (simp add: round53_def sh_def d_def)
  have "r \<le> (n div d) * d"
  proof (cases "sh \<le> e")
    case True
    then have "d dvd r" by (simp add: r(1) d_def le_imp_power_dvd)
    then show ?thesis using le by (intro multiple_le_round_down) (simp_all add: d_def)
  next
    case small: False
    have "r < 2 ^ 53 * 2 ^ e" using r by simp
    also have "\<dots> = 2 ^ (53 + e)" by (simp add: power_add)
    also have "\<dots> \<le> (2::nat) ^ (52 + sh)" using small by (intro power_increasing) simp_all
    finally have rlt: "r < 2 ^ (52 + sh)" .
    have p: "(2::nat) ^ (52 + sh) \<le> n"
      using bitlen_bounds [of n] npos sh by simp
    have "d dvd 2 ^ (52 + sh)" by (simp add: d_def le_imp_power_dvd)
    then have "2 ^ (52 + sh) \<le> (n div d) * d"
      using p by (intro multiple_le_round_down) (simp_all add: d_def)
    with rlt show ?thesis by simp
  qed
  with down show ?thesis by simp
qed

lemma round53_upper:
  assumes r: "r = m * 2 ^ e" "m < 2 ^ 53" and le: "n \<le> r"
  shows "round53 n \<le> r"
proof (cases "bitlen n \<le> 53")
  case True
  then show ?thesis using le by (simp add: round53_def)
next
  case False
  define sh where "sh = bitlen n - 53"
  define d :: nat where "d = 2 ^ sh"
  have sh: "bitlen n = 53 + sh" using False by (simp add: sh_def)
  have npos: "0 < n" using False by (cases "n = 0") (simp_all add: bitlen.simps)
  have r53: "round53 n = round_half_even n sh * d"
    using False by (simp add: round53_def sh_def d_def)
  show ?thesis
  proof (cases "n mod d = 0")
    case True
    then have "n div d * d = n" by (simp add: mod_eq_0_iff_dvd)
    moreover have "round_half_even n sh = n div d"
      using True round_half_even_bounds [of n sh] by (simp add: d_def)
    ultimately have "round53 n = n" using r53 by simp
    then show ?thesis using le by simp
  next
    case nz: False
    have "round_half_even n sh \<le> n div d + 1"
      using round_half_even_bounds [of n sh] by (simp add: d_def)
    then have up: "round53 n \<le> (n div d + 1) * d"
      unfolding r53 by (rule mult_le_mono1)
    have "sh \<le> e"
    proof (rule ccontr)
      assume "\<not> sh \<le> e"
      have "r < 2 ^ 53 * 2 ^ e" using r by simp
      also have "\<dots> = 2 ^ (53 + e)" by (simp add: power_add)
      also have "\<dots> \<le> (2::nat) ^ (52 + sh)"
        using \<open>\<not> sh \<le> e\<close> by (intro power_increasing) simp_all
      also have "\<dots> \<le> n" using bitlen_bounds [of n] npos sh by simp
      finally show False using le by simp
    qed
    then have "d dvd r" by (simp add: r(1) d_def le_imp_power_dvd)
    then have "(n div d + 1) * d \<le> r"
      using le nz by (intro multiple_ge_round_up) (simp_all add: d_def)
    with up show ?thesis by simp
  qed
qed

lemma bitlen_small: "n < 2 ^ k \<Longrightarrow> bitlen n \<le> k"
proof (rule ccontr)
  assume a: "n < 2 ^ k" "\<not> bitlen n \<le> k"
  then have "0 < n" by (cases "n = 0") (simp_all add: bitlen.simps)
  then have A: "2 ^ (bitlen n - 1) \<le> n" using bitlen_bounds [of n] by simp
  have B: "(2::nat) ^ k \<le> 2 ^ (bitlen n - 1)" using a(2) by (intro power_increasing) simp_all
  from B A have "2 ^ k \<le> n" by (rule order_trans)
  with a(1) show False by simp
qed

text \<open>Below \<open>2\<^sup>4\<^sup>5\<close>, the truncated float product with 1.3 is the integer part of \<open>13 n / 10\<close>.\<close>

lemma int_times_1_3:
  assumes "n < 2 ^ 45"
  shows "py_int (int_times_float n f1_3) = int ((13 * n) div 10)"
proof -
  define K where "K = (13 * n) div 10"
  define P where "P = n * f1_3"
  have fl: "round53 n = n"
    using assms bitlen_small [of n 53] by (simp add: round53_def)
  have K1: "10 * K \<le> 13 * n" and K2: "13 * n \<le> 10 * K + 9"
    by (simp_all add: K_def)
  have Kb: "K < 2 ^ 46" using K1 assms by simp
  have P10: "10 * P = 13 * n * 2 ^ 56 + 32 * n"
    by (simp add: P_def f1_3_def)
  have lo: "K * 2 ^ 56 \<le> round53 P"
  proof (rule round53_lower [where m = K and e = 56])
    show "K < 2 ^ 53" using Kb by simp
    have "10 * (K * 2 ^ 56) \<le> 10 * P" using K1 P10 by simp
    then show "K * 2 ^ 56 \<le> P" by simp
  qed simp
  have hi: "round53 P \<le> ((K + 1) * 128 - 1) * 2 ^ 49"
  proof (rule round53_upper [where m = "(K + 1) * 128 - 1" and e = 49])
    show "(K + 1) * 128 - 1 < 2 ^ 53" using Kb by simp
    have "10 * P \<le> (10 * K + 9) * 2 ^ 56 + 32 * n" using K2 P10 by simp
    also have "\<dots> \<le> 10 * (((K + 1) * 128 - 1) * 2 ^ 49)" using assms by simp
    finally show "P \<le> ((K + 1) * 128 - 1) * 2 ^ 49" by simp
  qed simp
  have "((K + 1) * 128 - 1) * 2 ^ 49 < (K + 1) * 2 ^ 56" by simp
  with hi have hi': "round53 P < (K + 1) * 2 ^ 56" by simp
  have "round53 P div 2 ^ 56 = K"
    using lo hi' by (intro div_nat_eqI) (simp_all add: mult.commute)
  then show ?thesis
    by (simp add: py_int_def int_times_float_def fl P_def K_def)
qed

section \<open>Evaluation of floats on literals\<close>

lemma bitlen_0: "bitlen 0 = 0"
  by (simp add: bitlen.simps)

lemma bitlen_1: "bitlen 1 = 1" "bitlen (Suc 0) = 1"
  by (simp_all add: bitlen.simps)

lemma bitlen_Bit0: "bitlen (numeral (Num.Bit0 k)) = Suc (bitlen (numeral k))"
  by (subst bitlen.simps) simp

lemma bitlen_Bit1: "bitlen (numeral (Num.Bit1 k)) = Suc (bitlen (numeral k))"
  by (subst bitlen.simps) simp

lemmas float_eval =
  float_add_def int_times_float_def py_int_def py_round_def round53_def round_half_even_def
  Let_def bitlen_0 bitlen_1 bitlen_Bit0 bitlen_Bit1
  f0_0_def f0_1_def f0_2_def f0_3_def f0_4_def f0_7_def f0_8_def f1_0_def f1_3_def

lemma float_sum_4_1: "float_add (float_add f0_0 f0_4) f0_1 = 2 ^ 55"
  by (simp add: float_eval)

section \<open>The distributed orchestrator\<close>

lemma pd_page_partition: "map pd_page (process_page_partition cfg pages) = pages"
  by (induction pages)
     (simp_all add: process_page_partition_def process_partition_page_def failure_entry_def
        split: sum.splits)

lemma length_partition: "length (process_page_partition cfg pages) = length pages"
  by (simp add: process_page_partition_def)

lemma aggregate_counts:
  "n_successful (fold aggregate rs st) + n_failed (fold aggregate rs st)
     = n_successful st + n_failed st + length rs"
  by (induction rs arbitrary: st) (simp_all add: aggregate_def)

lemma partitions_106: "make_partitions (py_range 7 107) 50 = Inr [[7..56], [57..106]]"
  by code_simp

lemma page_partitions_106:
  "page_partitions_of (cfg\<lparr>skip_first_pages := Some 6, pages_per_partition := Some 50\<rparr>) 106
     = Inr [[7..56], [57..106]]"
  by (simp add: page_partitions_of_def partitions_106)

text \<open>
  An orchestrator that the constructor has built holds a Spark session, so no
  call of \<^verbatim>\<open>process_document_distributed\<close> on it returns a result: it raises
  for a page count of 0, for a partition size of 0, for an empty list of
  partitions, and when the runtime pickles the bound method.
\<close>

lemma constructed_holds_session:
  "new_databricks_chunker pdf_path cfg use_databricks active_session = Inr self \<Longrightarrow>
   dc_spark self \<noteq> None \<and> dc_config self = cfg"
  by (auto simp: new_databricks_chunker_def split: option.splits)

lemma distributed_never_returns:
  "new_databricks_chunker pdf_path cfg use_databricks active_session = Inr self \<Longrightarrow>
   process_document_distributed self total_pages \<noteq> Inr r"
  using constructed_holds_session [of pdf_path cfg use_databricks active_session self]
  by (auto simp: process_document_distributed_def run_parallel_def picklable_def
      split: sum.splits if_splits)

text \<open>
  What the code after the call of the runtime computes from the entries of the
  two partitions: one entry for each page from 7 to 106, 100 pages counted.
\<close>

lemma entries_of_106:
  "map pd_page (concat (map (process_page_partition cfg) [[7..56], [57..106]])) = [7..106]
   \<and> length (concat (map (process_page_partition cfg) [[7..56], [57..106]])) = 100"
proof -
  have len: "length [7..(56::int)] + length [57..(106::int)] = 100"
    by code_simp
  have all: "[7..56] @ [57..106] = [7..(106::int)]"
    by code_simp
  show ?thesis
    using len all by (simp add: pd_page_partition length_partition del: upto.simps length_upto)
qed

text \<open>
  Claim C7 says that, for 106 pages with \<^verbatim>\<open>skip_first_pages = 6\<close> and
  \<^verbatim>\<open>pages_per_partition = 50\<close>, the orchestrator builds the partitions of
  the pages 7 to 56 and 57 to 106 and returns a result of 100 page entries.
  The code builds exactly these two partitions, and then raises: the function
  handed to the runtime is the bound method \<^verbatim>\<open>self._process_page_partition\<close>
  of an object that holds the Spark session, which cannot be pickled. No
  result is returned, whatever the path, the other settings and the flag are.
\<close>

theorem C7_distributed_run_raises:
  "\<exists>self. new_databricks_chunker pdf_path
            (cfg\<lparr>skip_first_pages := Some 6, pages_per_partition := Some 50\<rparr>)
            use_databricks (Some SparkSession) = Inr self
     \<and> page_partitions_of (dc_config self) 106 = Inr [[7..56], [57..106]]
     \<and> process_document_distributed self 106 = Inl PicklingError"
  by (simp add: new_databricks_chunker_def process_document_distributed_def
      page_partitions_106 run_parallel_def picklable_def)

section \<open>The page processor and the chunk assembler\<close>

lemma process_page_no_lines:
  "extract_text_with_ocr ch page_num = [] \<Longrightarrow>
   process_page ch page_num =
     (case get_page ch page_num of
        Inl e \<Rightarrow> Inl e
      | Inr pg \<Rightarrow> Inr ([], footnotes_of_text (ch_config ch) page_num (text_layer pg)))"
  by (simp add: process_page_def extract_footnotes_pymupdf_def split: sum.splits)

text \<open>
  Claim C8. For every chunker and every page index, if
  \<^verbatim>\<open>extract_text_with_ocr\<close> yields no lines, which includes every failure
  of rendering or of the OCR engine since that function turns each exception
  into the empty list, then \<^verbatim>\<open>process_page\<close> returns the empty paragraph
  list paired with the footnotes found in the text layer of the page. The
  footnotes depend on the text layer and the configuration only. The one
  outcome other than this pair is the exception of reading the page itself
  (no document open, or no such page), which \<^verbatim>\<open>process_page\<close> passes on.
\<close>

theorem C8_no_ocr_lines:
  "extract_text_with_ocr ch page_num = [] \<Longrightarrow>
   process_page ch page_num =
     (case get_page ch page_num of
        Inl e \<Rightarrow> Inl e
      | Inr pg \<Rightarrow> Inr ([], footnotes_of_text (ch_config ch) page_num (text_layer pg)))"
  by (rule process_page_no_lines)

lemma example_ocr: "extract_text_with_ocr example_chunker 6 = []"
  by code_simp

lemma example_page:
  "get_page example_chunker 6 =
     Inr \<lparr>text_layer = ''12 P-0123: witness statement, para. 45'', ocr_outcome = Inl OtherError\<rparr>"
  by code_simp

lemma example_config: "ch_config example_chunker = HYBRID_CHUNKING_CONFIG"
  by (simp add: example_chunker_def open_document_def new_chunker_def)

lemma example_line:
  "py_split_on CHR 0x0A ''12 P-0123: witness statement, para. 45''
     = [''12 P-0123: witness statement, para. 45'']
   \<and> py_strip ''12 P-0123: witness statement, para. 45''
     = ''12 P-0123: witness statement, para. 45''
   \<and> \<not> is_header HYBRID_CHUNKING_CONFIG ''12 P-0123: witness statement, para. 45''
   \<and> re_match (footnote_pattern HYBRID_CHUNKING_CONFIG) ''12 P-0123: witness statement, para. 45''
     = Some \<lparr>group1 = ''12'', match_start = ([], ''12 P-0123: witness statement, para. 45''),
             match_end = ('' 21'', ''P-0123: witness statement, para. 45'')\<rparr>
   \<and> py_strip ''P-0123: witness statement, para. 45'' = ''P-0123: witness statement, para. 45''
   \<and> is_valid_footnote_pymupdf HYBRID_CHUNKING_CONFIG ''P-0123: witness statement, para. 45'' ''12''"
  by code_simp

lemma example_flags:
  "re_search False witness_ref ''P-0123: witness statement, para. 45''
   \<and> \<not> re_search False transcript_ref ''P-0123: witness statement, para. 45''
   \<and> \<not> re_search False document_ref ''P-0123: witness statement, para. 45''
   \<and> \<not> re_search False case_ref ''P-0123: witness statement, para. 45''
   \<and> re_search False paragraph_ref ''P-0123: witness statement, para. 45''
   \<and> \<not> re_search False page_ref ''P-0123: witness statement, para. 45''
   \<and> \<not> re_search False article_ref ''P-0123: witness statement, para. 45''
   \<and> \<not> re_search False rule_ref ''P-0123: witness statement, para. 45''"
  by code_simp

lemma example_confidence:
  "calculate_footnote_confidence ''P-0123: witness statement, para. 45'' = 2 ^ 55"
  using example_flags
  by (simp add: calculate_footnote_confidence_def bump_def float_sum_4_1 f1_0_def)

lemma example_footnotes:
  "footnotes_of_text HYBRID_CHUNKING_CONFIG 6 ''12 P-0123: witness statement, para. 45''
     = [example_footnote]"
  using example_line
  by (simp add: footnotes_of_text_def footnote_line_def save_footnote_def example_confidence
      example_footnote_def)

text \<open>
  On page 6 of the example document the OCR engine fails and the text layer
  holds footnote 12; the page processor returns that footnote and no paragraph.
\<close>

theorem C8_no_ocr_lines_witness:
  "extract_text_with_ocr example_chunker 6 = []
   \<and> process_page example_chunker 6 = Inr ([], [example_footnote])"
  using C8_no_ocr_lines [of example_chunker 6] example_ocr example_page example_footnotes
  by (simp add: example_config)

text \<open>
  Claim C4 says that every footnote of the collection gives rise to a chunk.
  \<^verbatim>\<open>create_semantic_chunks\<close> visits the pages that have a paragraph, so the
  footnotes of a page without paragraphs are left out: the page processor
  returns footnote 12 and no paragraph for page 6 of the example document, and
  from these collections the assembler builds no chunk at all.
\<close>

theorem C4_footnote_without_paragraph:
  "process_page example_chunker 6 = Inr ([], [example_footnote])
   \<and> create_semantic_chunks
       (example_chunker\<lparr>ch_paragraphs := [], ch_footnotes := [example_footnote]\<rparr>) = []"
  using process_page_no_lines [of example_chunker 6] example_ocr example_page example_footnotes
  by (simp add: example_config create_semantic_chunks_def group_by_page_def)

section \<open>Footnote validation\<close>

lemma date_found_ex: "date_found ps content = list_ex (\<lambda>p. re_search True p content) ps"
  by (induction ps) simp_all

text \<open>
  Claim C2. \<^verbatim>\<open>_is_valid_footnote_pymupdf\<close> is the conjunction of three
  conditions. A content of fewer than 10 characters is rejected, whatever it
  matches. A content in which a date pattern of the configuration is found
  (searched without regard to case) is rejected, whatever else it matches. Any
  other content is accepted exactly when one of the nine citation patterns of
  \<open>legal_patterns\<close> is found in it: witness, transcript, \<^verbatim>\<open>CAR-\<close>,
  \<^verbatim>\<open>ICC-\<close>, paragraph, page, line, Article, Rule.
\<close>

theorem C2_validation_conjunction:
  "(length content < 10 \<longrightarrow> \<not> is_valid_footnote_pymupdf cfg content footnote_num)
   \<and> (list_ex (\<lambda>p. re_search True p content) (date_patterns cfg)
        \<longrightarrow> \<not> is_valid_footnote_pymupdf cfg content footnote_num)
   \<and> (10 \<le> length content \<and> \<not> list_ex (\<lambda>p. re_search True p content) (date_patterns cfg)
        \<longrightarrow> is_valid_footnote_pymupdf cfg content footnote_num
             = list_ex (\<lambda>p. re_search False p content) legal_patterns)"
  by (simp add: is_valid_footnote_pymupdf_def date_found_ex)

lemma nine_chars:
  "length ''ICC-12345'' = 9 \<and> list_ex (\<lambda>p. re_search False p ''ICC-12345'') legal_patterns"
  by code_simp

lemma dated_citation:
  "list_ex (\<lambda>p. re_search True p ''ICC-01/05, 3 march 2014'') (date_patterns HYBRID_CHUNKING_CONFIG)
   \<and> list_ex (\<lambda>p. re_search False p ''ICC-01/05, 3 march 2014'') legal_patterns
   \<and> 10 \<le> length ''ICC-01/05, 3 march 2014''"
  by code_simp

lemma plain_citation:
  "\<not> list_ex (\<lambda>p. re_search True p ''P-0123: witness statement'') (date_patterns HYBRID_CHUNKING_CONFIG)
   \<and> list_ex (\<lambda>p. re_search False p ''P-0123: witness statement'') legal_patterns
   \<and> 10 \<le> length ''P-0123: witness statement''"
  by code_simp

lemma no_citation:
  "\<not> list_ex (\<lambda>p. re_search True p ''see the discussion above'') (date_patterns HYBRID_CHUNKING_CONFIG)
   \<and> \<not> list_ex (\<lambda>p. re_search False p ''see the discussion above'') legal_patterns
   \<and> 10 \<le> length ''see the discussion above''"
  by code_simp

text \<open>
  Under the default configuration: nine characters holding the citation
  \<^verbatim>\<open>ICC-\<close> are rejected; a citation with a date is rejected; a citation
  without a date is accepted; a long content without citation is rejected.
\<close>

theorem C2_validation_conjunction_witness:
  "length ''ICC-12345'' < 10
   \<and> list_ex (\<lambda>p. re_search False p ''ICC-12345'') legal_patterns
   \<and> \<not> is_valid_footnote_pymupdf HYBRID_CHUNKING_CONFIG ''ICC-12345'' ''1''
   \<and> list_ex (\<lambda>p. re_search True p ''ICC-01/05, 3 march 2014'') (date_patterns HYBRID_CHUNKING_CONFIG)
   \<and> list_ex (\<lambda>p. re_search False p ''ICC-01/05, 3 march 2014'') legal_patterns
   \<and> \<not> is_valid_footnote_pymupdf HYBRID_CHUNKING_CONFIG ''ICC-01/05, 3 march 2014'' ''1''
   \<and> is_valid_footnote_pymupdf HYBRID_CHUNKING_CONFIG ''P-0123: witness statement'' ''1''
   \<and> \<not> is_valid_footnote_pymupdf HYBRID_CHUNKING_CONFIG ''see the discussion above'' ''1''"
  using C2_validation_conjunction [of "''ICC-12345''" HYBRID_CHUNKING_CONFIG "''1''"]
    C2_validation_conjunction [of "''ICC-01/05, 3 march 2014''" HYBRID_CHUNKING_CONFIG "''1''"]
    C2_validation_conjunction [of "''P-0123: witness statement''" HYBRID_CHUNKING_CONFIG "''1''"]
    C2_validation_conjunction [of "''see the discussion above''" HYBRID_CHUNKING_CONFIG "''1''"]
    nine_chars dated_citation plain_citation no_citation
  by simp

section \<open>The paragraph recognizer\<close>

text \<open>
  The scan keeps two facts: the numbers emitted are distinct, and each of them
  is in \<^verbatim>\<open>seen_numbers\<close>.
\<close>

lemma save_paragraph_inv:
  assumes "distinct (map para_number (out_paragraphs st))"
    and "para_number ` set (out_paragraphs st) \<subseteq> seen_numbers st"
  shows "distinct (map para_number (out_paragraphs (save_paragraph pg l st)))
       \<and> para_number ` set (out_paragraphs (save_paragraph pg l st))
           \<subseteq> seen_numbers (save_paragraph pg l st)"
  using assms by (auto simp: save_paragraph_def Let_def split: option.splits)

lemma paragraph_line_inv:
  assumes "distinct (map para_number (out_paragraphs st))"
    and "para_number ` set (out_paragraphs st) \<subseteq> seen_numbers st"
  shows "distinct (map para_number (out_paragraphs (paragraph_line cfg pg nl st)))
       \<and> para_number ` set (out_paragraphs (paragraph_line cfg pg nl st))
           \<subseteq> seen_numbers (paragraph_line cfg pg nl st)"
proof (cases "find_para_match cfg (snd nl)")
  case None
  then show ?thesis using assms by (simp add: paragraph_line_def Let_def)
next
  case (Some m)
  then show ?thesis
    using save_paragraph_inv [OF assms, of pg "int (fst nl)"]
    by (simp add: paragraph_line_def Let_def)
qed

lemma scan_inv:
  assumes "distinct (map para_number (out_paragraphs st))"
    and "para_number ` set (out_paragraphs st) \<subseteq> seen_numbers st"
  shows "distinct (map para_number (out_paragraphs (fold (paragraph_line cfg pg) nls st)))
       \<and> para_number ` set (out_paragraphs (fold (paragraph_line cfg pg) nls st))
           \<subseteq> seen_numbers (fold (paragraph_line cfg pg) nls st)"
  using assms
proof (induction nls arbitrary: st)
  case Nil
  then show ?case by simp
next
  case (Cons nl nls)
  from paragraph_line_inv [OF Cons.prems, of cfg pg nl] Cons.IH show ?case by simp
qed

lemma save_paragraph_extends:
  "\<exists>rest. out_paragraphs (save_paragraph pg l st) = out_paragraphs st @ rest"
  by (simp add: save_paragraph_def Let_def split: option.splits)

lemma paragraph_line_extends:
  "\<exists>rest. out_paragraphs (paragraph_line cfg pg nl st) = out_paragraphs st @ rest"
  using save_paragraph_extends [of pg "int (fst nl)" st]
  by (auto simp: paragraph_line_def Let_def split: option.splits)

lemma scan_extends:
  "\<exists>rest. out_paragraphs (fold (paragraph_line cfg pg) nls st) = out_paragraphs st @ rest"
proof (induction nls arbitrary: st)
  case Nil
  then show ?case by simp
next
  case (Cons nl nls)
  obtain r1 where r1: "out_paragraphs (paragraph_line cfg pg nl st) = out_paragraphs st @ r1"
    using paragraph_line_extends by blast
  obtain r2 where "out_paragraphs (fold (paragraph_line cfg pg) nls (paragraph_line cfg pg nl st))
      = out_paragraphs (paragraph_line cfg pg nl st) @ r2"
    using Cons.IH by blast
  with r1 show ?case by simp
qed

text \<open>
  Claim C1. For every configuration, page and sequence of lines, the numbers
  of the paragraphs that \<^verbatim>\<open>extract_paragraphs_ocr\<close> emits are pairwise
  distinct. A paragraph once emitted is final: whatever lines follow, the
  paragraphs emitted so far stay as they are at the front of the output, so a
  later occurrence of a number already emitted adds nothing to its paragraph
  and, by distinctness, no second paragraph with that number.
\<close>

theorem C1_distinct_paragraph_numbers:
  "distinct (map para_number (extract_paragraphs_ocr cfg lines page_num))
   \<and> (\<exists>rest. extract_paragraphs_ocr cfg (lines @ later) page_num
          = out_paragraphs (fold (paragraph_line cfg page_num) (enumerate 0 lines) para_init) @ rest)"
proof
  have "distinct (map para_number (out_paragraphs para_init))"
    and "para_number ` set (out_paragraphs para_init) \<subseteq> seen_numbers para_init"
    by (simp_all add: para_init_def)
  note inv = scan_inv [OF this, of cfg page_num "enumerate 0 lines"]
  from save_paragraph_inv [OF conjunct1 [OF inv] conjunct2 [OF inv], of page_num "int (length lines)"]
  show "distinct (map para_number (extract_paragraphs_ocr cfg lines page_num))"
    by (simp add: extract_paragraphs_ocr_def)
next
  let ?st = "fold (paragraph_line cfg page_num) (enumerate 0 lines) para_init"
  have split: "fold (paragraph_line cfg page_num) (enumerate 0 (lines @ later)) para_init
      = fold (paragraph_line cfg page_num) (enumerate (length lines) later) ?st"
    by (simp add: enumerate_append_eq)
  obtain r1 where r1: "out_paragraphs (fold (paragraph_line cfg page_num) (enumerate (length lines) later) ?st)
      = out_paragraphs ?st @ r1"
    using scan_extends by blast
  obtain r2 where "out_paragraphs (save_paragraph page_num (int (length (lines @ later)))
        (fold (paragraph_line cfg page_num) (enumerate (length lines) later) ?st))
      = out_paragraphs (fold (paragraph_line cfg page_num) (enumerate (length lines) later) ?st) @ r2"
    using save_paragraph_extends by blast
  with r1 split
  show "\<exists>rest. extract_paragraphs_ocr cfg (lines @ later) page_num = out_paragraphs ?st @ rest"
    unfolding extract_paragraphs_ocr_def by simp
qed

section \<open>The confidence score\<close>

lemma float_val_mono: "float_val x \<le> float_val y \<longleftrightarrow> x \<le> y"
  by (simp add: float_val_def divide_le_cancel)

lemma float_literals:
  "float_val f0_0 = 0" "float_val f1_0 = 1"
  "\<bar>float_val f0_1 - 1 / 10\<bar> < 1 / 2 ^ 57"
  "\<bar>float_val f0_2 - 2 / 10\<bar> < 1 / 2 ^ 56"
  "\<bar>float_val f0_3 - 3 / 10\<bar> < 1 / 2 ^ 55"
  "\<bar>float_val f0_4 - 4 / 10\<bar> < 1 / 2 ^ 55"
  "\<bar>float_val f0_7 - 7 / 10\<bar> < 1 / 2 ^ 54"
  "\<bar>float_val f0_8 - 8 / 10\<bar> < 1 / 2 ^ 54"
  "\<bar>float_val f1_3 - 13 / 10\<bar> < 1 / 2 ^ 53"
  by (simp_all add: float_val_def float_eval)

lemma bump_foldl:
  "foldl float_add s (map snd (filter fst ((b, x) # rest)))
     = foldl float_add (bump b x s) (map snd (filter fst rest))"
  by (simp add: bump_def)

lemma float_sum_4_3: "float_add (float_add f0_0 f0_4) f0_3 = f0_7"
  by (simp add: float_eval)

lemma min_0_7: "min f0_7 f1_0 = f0_7"
  by (simp add: f0_7_def f1_0_def)

lemma bump_keeps_0_7: "f0_7 \<le> s \<Longrightarrow> f0_7 \<le> bump b x s"
proof (cases b)
  case False
  assume "f0_7 \<le> s"
  with False show ?thesis by (simp add: bump_def)
next
  case True
  assume le: "f0_7 \<le> s"
  have "f0_7 \<le> round53 (s + x)"
  proof (rule round53_lower [where m = "0x16666666666666" and e = 3])
    show "f0_7 = 0x16666666666666 * 2 ^ 3" by (simp add: f0_7_def)
    show "(0x16666666666666::nat) < 2 ^ 53" by simp
    show "f0_7 \<le> s + x" using le by simp
  qed
  with True show ?thesis by (simp add: bump_def float_add_def)
qed

text \<open>
  Claim C5. For every content, \<^verbatim>\<open>_calculate_footnote_confidence\<close> is the
  float sum, from 0.0 and in this order, of the increments of the tests that
  hold (0.4 witness, 0.3 transcript, 0.2 \<^verbatim>\<open>CAR-\<close>, 0.2 \<^verbatim>\<open>ICC-\<close>, 0.1
  paragraph, 0.1 page, 0.1 Article, 0.1 Rule, 0.1 for more than 50 characters),
  capped at 1.0. Its value lies between 0 and 1, and with a witness and a
  transcript reference it is at least 0.7. The numbers are the floats that the
  literals of the source denote (see \<open>float_literals\<close>), and the sum rounds
  as the floats of the source do.
\<close>

theorem C5_confidence_score:
  "calculate_footnote_confidence content =
     min (foldl float_add f0_0 (map snd (filter fst
            [(re_search False witness_ref content, f0_4),
             (re_search False transcript_ref content, f0_3),
             (re_search False document_ref content, f0_2),
             (re_search False case_ref content, f0_2),
             (re_search False paragraph_ref content, f0_1),
             (re_search False page_ref content, f0_1),
             (re_search False article_ref content, f0_1),
             (re_search False rule_ref content, f0_1),
             (50 < length content, f0_1)])))
         f1_0
   \<and> 0 \<le> float_val (calculate_footnote_confidence content)
   \<and> float_val (calculate_footnote_confidence content) \<le> 1
   \<and> (re_search False witness_ref content \<and> re_search False transcript_ref content
        \<longrightarrow> float_val f0_7 \<le> float_val (calculate_footnote_confidence content))"
proof (intro conjI impI)
  show "calculate_footnote_confidence content =
     min (foldl float_add f0_0 (map snd (filter fst
            [(re_search False witness_ref content, f0_4),
             (re_search False transcript_ref content, f0_3),
             (re_search False document_ref content, f0_2),
             (re_search False case_ref content, f0_2),
             (re_search False paragraph_ref content, f0_1),
             (re_search False page_ref content, f0_1),
             (re_search False article_ref content, f0_1),
             (re_search False rule_ref content, f0_1),
             (50 < length content, f0_1)])))
         f1_0"
    unfolding calculate_footnote_confidence_def Let_def bump_foldl by simp
  show "0 \<le> float_val (calculate_footnote_confidence content)"
    by (simp add: float_val_def)
  have "calculate_footnote_confidence content \<le> f1_0"
    by (simp add: calculate_footnote_confidence_def Let_def)
  then show "float_val (calculate_footnote_confidence content) \<le> 1"
    using float_val_mono [of "calculate_footnote_confidence content" f1_0]
    by (simp add: float_literals)
  assume both: "re_search False witness_ref content \<and> re_search False transcript_ref content"
  have "f0_7 \<le> f1_0" by (simp add: f0_7_def f1_0_def)
  then have "f0_7 \<le> calculate_footnote_confidence content"
    using both
    by (simp add: calculate_footnote_confidence_def Let_def bump_keeps_0_7
        bump_def [of True] float_sum_4_3)
  then show "float_val f0_7 \<le> float_val (calculate_footnote_confidence content)"
    by (simp add: float_val_mono)
qed

lemma both_refs:
  "re_search False witness_ref ''P-0123: T-45'' \<and> re_search False transcript_ref ''P-0123: T-45''
   \<and> \<not> re_search False document_ref ''P-0123: T-45''
   \<and> \<not> re_search False case_ref ''P-0123: T-45''
   \<and> \<not> re_search False paragraph_ref ''P-0123: T-45''
   \<and> \<not> re_search False page_ref ''P-0123: T-45''
   \<and> \<not> re_search False article_ref ''P-0123: T-45''
   \<and> \<not> re_search False rule_ref ''P-0123: T-45''"
  by code_simp

text \<open>A content with a witness and a transcript reference only scores 0.4 + 0.3 = 0.7.\<close>

theorem C5_confidence_score_witness:
  "re_search False witness_ref ''P-0123: T-45'' \<and> re_search False transcript_ref ''P-0123: T-45''
   \<and> calculate_footnote_confidence ''P-0123: T-45'' = f0_7
   \<and> float_val f0_7 \<le> float_val (calculate_footnote_confidence ''P-0123: T-45'')"
  using C5_confidence_score [of "''P-0123: T-45''"] both_refs
  by (simp add: float_sum_4_3 min_0_7)

section \<open>The fields of an emitted paragraph\<close>

text \<open>Every paragraph emitted carries the estimate and the references computed from its content.\<close>

lemma save_paragraph_fields:
  assumes "\<forall>p \<in> set (out_paragraphs st).
             token_count p = estimate_tokens (para_content p)
             \<and> footnote_references p = extract_footnote_references (para_content p)"
  shows "\<forall>p \<in> set (out_paragraphs (save_paragraph pg l st)).
             token_count p = estimate_tokens (para_content p)
             \<and> footnote_references p = extract_footnote_references (para_content p)"
  using assms by (auto simp: save_paragraph_def Let_def split: option.splits)

lemma paragraph_line_fields:
  assumes "\<forall>p \<in> set (out_paragraphs st).
             token_count p = estimate_tokens (para_content p)
             \<and> footnote_references p = extract_footnote_references (para_content p)"
  shows "\<forall>p \<in> set (out_paragraphs (paragraph_line cfg pg nl st)).
             token_count p = estimate_tokens (para_content p)
             \<and> footnote_references p = extract_footnote_references (para_content p)"
proof (cases "find_para_match cfg (snd nl)")
  case None
  then show ?thesis using assms by (simp add: paragraph_line_def Let_def)
next
  case (Some m)
  then show ?thesis
    using save_paragraph_fields [OF assms, of pg "int (fst nl)"]
    by (simp add: paragraph_line_def Let_def)
qed

lemma scan_fields:
  assumes "\<forall>p \<in> set (out_paragraphs st).
             token_count p = estimate_tokens (para_content p)
             \<and> footnote_references p = extract_footnote_references (para_content p)"
  shows "\<forall>p \<in> set (out_paragraphs (fold (paragraph_line cfg pg) nls st)).
             token_count p = estimate_tokens (para_content p)
             \<and> footnote_references p = extract_footnote_references (para_content p)"
  using assms
proof (induction nls arbitrary: st)
  case Nil
  then show ?case by simp
next
  case (Cons nl nls)
  from paragraph_line_fields [OF Cons.prems, of cfg pg nl] Cons.IH show ?case by simp
qed

lemma emitted_fields:
  assumes "p \<in> set (extract_paragraphs_ocr cfg lines page_num)"
  shows "token_count p = estimate_tokens (para_content p)
       \<and> footnote_references p = extract_footnote_references (para_content p)"
proof -
  have "\<forall>p \<in> set (out_paragraphs para_init).
             token_count p = estimate_tokens (para_content p)
             \<and> footnote_references p = extract_footnote_references (para_content p)"
    by (simp add: para_init_def)
  from save_paragraph_fields [OF scan_fields [OF this]] assms show ?thesis
    unfolding extract_paragraphs_ocr_def by blast
qed

text \<open>The two example lines.\<close>

lemma example_match:
  "find_para_match HYBRID_CHUNKING_CONFIG example_line
     = Some \<lparr>group1 = ''1'', match_start = ([], example_line), match_end = ('' .1'', example_content)\<rparr>
   \<and> find_para_match HYBRID_CHUNKING_CONFIG example_line2
     = Some \<lparr>group1 = ''2'', match_start = ([], example_line2), match_end = ('' .2'', example_content2)\<rparr>"
  by code_simp

lemma example_contents:
  "py_strip example_content = example_content \<and> is_valid_paragraph example_content
   \<and> extract_footnote_references example_content = [''201'', ''4'']
   \<and> length (py_split example_content) = 12
   \<and> py_strip example_content2 = example_content2 \<and> is_valid_paragraph example_content2
   \<and> extract_footnote_references example_content2 = [''12'', ''345'']
   \<and> length (py_split example_content2) = 13"
  by code_simp

lemma example_tokens: "estimate_tokens example_content = 15" "estimate_tokens example_content2 = 16"
  using example_contents by (simp_all add: estimate_tokens_def int_times_1_3)

lemma example_scan:
  "extract_paragraphs_ocr HYBRID_CHUNKING_CONFIG [example_line] 0 = [example_paragraph]"
  "extract_paragraphs_ocr HYBRID_CHUNKING_CONFIG [example_line2] 0 = [example_paragraph2]"
  using example_match example_contents
  by (simp_all add: extract_paragraphs_ocr_def paragraph_line_def save_paragraph_def
      para_init_def Let_def enumerate_simps example_tokens example_paragraph_def
      example_paragraph2_def)

lemma round_12: "py_round (int_times_float 12 f1_3) = 16"
  by (simp add: float_eval)

text \<open>
  Claim C3 fails as stated. The example line gives one paragraph of 12 words;
  the product \<open>12 * 1.3\<close> is the float 15.6, which \<^verbatim>\<open>int\<close> truncates to the
  token count 15, while rounding gives 16.
\<close>

theorem C3_token_count_counterexample:
  "extract_paragraphs_ocr HYBRID_CHUNKING_CONFIG [example_line] 0 = [example_paragraph]
   \<and> token_count example_paragraph = 15
   \<and> length (py_split (para_content example_paragraph)) = 12
   \<and> py_round (int_times_float 12 f1_3) = 16"
  using example_scan(1) example_contents round_12
  by (simp add: example_paragraph_def)

text \<open>
  Claim C3, amended. For every paragraph emitted, the token count is the float
  product of the word count of the content and 1.3, truncated to an integer
  (\<^verbatim>\<open>int\<close>), not rounded; below \<open>2\<^sup>4\<^sup>5\<close> words this is the integer part
  of thirteen tenths of the word count.
\<close>

theorem C3_token_count_truncated:
  "p \<in> set (extract_paragraphs_ocr cfg lines page_num) \<Longrightarrow>
   token_count p = py_int (int_times_float (length (py_split (para_content p))) f1_3)
   \<and> (length (py_split (para_content p)) < 2 ^ 45
        \<longrightarrow> token_count p = int (13 * length (py_split (para_content p)) div 10))"
  using emitted_fields [of p cfg lines page_num]
  by (simp add: estimate_tokens_def int_times_1_3)

text \<open>The example paragraph: 12 words, 15 tokens.\<close>

theorem C3_token_count_truncated_witness:
  "example_paragraph \<in> set (extract_paragraphs_ocr HYBRID_CHUNKING_CONFIG [example_line] 0)
   \<and> length (py_split (para_content example_paragraph)) = 12
   \<and> token_count example_paragraph = int (13 * 12 div 10)"
  using C3_token_count_truncated [of example_paragraph HYBRID_CHUNKING_CONFIG "[example_line]" 0]
    example_scan(1) example_contents
  by (simp add: example_paragraph_def)

section \<open>Footnote references\<close>

lemma cons2_neq: "a # b # xs \<noteq> xs"
proof
  assume "a # b # xs = xs"
  then have "length (a # b # xs) = length xs" by simp
  then show False by simp
qed

lemma cons3_neq: "a # b # c # xs \<noteq> xs"
proof
  assume "a # b # c # xs = xs"
  then have "length (a # b # c # xs) = length xs" by simp
  then show False by simp
qed

text \<open>The matches of \<^verbatim>\<open>(\d{1,3})\<close> at a position, in the order of backtracking.\<close>

lemma digits3_matches:
  "matches_at False reference_pattern (pre, suf)
     = map (\<lambda>c2. \<lparr>group1 = between (pre, suf) c2, match_start = (pre, suf), match_end = c2\<rparr>)
         (rep_atom False Digit (Suc 0) (Some 3) pre suf)"
  by (simp add: matches_at_def reference_pattern_def)

lemma digits3_none: "no_digit_ahead s \<Longrightarrow> rep_atom False Digit (Suc 0) (Some 3) pre s = []"
  by (cases s) (simp_all add: no_digit_ahead_def)

lemma digits3_one:
  "py_isdigit c1 \<Longrightarrow> no_digit_ahead s \<Longrightarrow>
   rep_atom False Digit (Suc 0) (Some 3) pre (c1 # s) = [(c1 # pre, s)]"
  by (cases s) (simp_all add: no_digit_ahead_def)

lemma digits3_two:
  "py_isdigit c1 \<Longrightarrow> py_isdigit c2 \<Longrightarrow> no_digit_ahead s \<Longrightarrow>
   rep_atom False Digit (Suc 0) (Some 3) pre (c1 # c2 # s) = [(c2 # c1 # pre, s), (c1 # pre, c2 # s)]"
  by (cases s) (simp_all add: no_digit_ahead_def)

lemma digits3_three:
  "py_isdigit c1 \<Longrightarrow> py_isdigit c2 \<Longrightarrow> py_isdigit c3 \<Longrightarrow>
   rep_atom False Digit (Suc 0) (Some 3) pre (c1 # c2 # c3 # s)
     = [(c3 # c2 # c1 # pre, s), (c2 # c1 # pre, c3 # s), (c1 # pre, c2 # c3 # s)]"
  by (cases s) simp_all

text \<open>One step of \<^verbatim>\<open>findall\<close> at each kind of position.\<close>

lemma findall_end:
  "findall_from reference_pattern pre [] adv = []"
  by (subst findall_from.simps) (simp add: digits3_matches digits3_none no_digit_ahead_def del: rep_atom.simps)

lemma findall_skip:
  "\<not> py_isdigit c \<Longrightarrow>
   findall_from reference_pattern pre (c # s) adv
     = findall_from reference_pattern (c # pre) s False"
  by (subst findall_from.simps) (simp add: digits3_matches digits3_none no_digit_ahead_def del: rep_atom.simps)

lemma findall_one:
  "py_isdigit c1 \<Longrightarrow> no_digit_ahead s \<Longrightarrow>
   findall_from reference_pattern pre (c1 # s) adv
     = [c1] # findall_from reference_pattern
                (c1 # pre) s False"
  by (subst findall_from.simps) (simp add: digits3_matches digits3_one between_def del: rep_atom.simps)

lemma findall_two:
  "py_isdigit c1 \<Longrightarrow> py_isdigit c2 \<Longrightarrow> no_digit_ahead s \<Longrightarrow>
   findall_from reference_pattern pre (c1 # c2 # s) adv
     = [c1, c2] # findall_from reference_pattern
                (c2 # c1 # pre) s False"
  by (subst findall_from.simps) (simp add: digits3_matches digits3_two between_def cons2_neq del: rep_atom.simps)

lemma findall_three:
  "py_isdigit c1 \<Longrightarrow> py_isdigit c2 \<Longrightarrow> py_isdigit c3 \<Longrightarrow>
   findall_from reference_pattern pre
       (c1 # c2 # c3 # s) adv
     = [c1, c2, c3] # findall_from reference_pattern
                (c3 # c2 # c1 # pre) s False"
  by (subst findall_from.simps) (simp add: digits3_matches digits3_three between_def cons3_neq del: rep_atom.simps)

text \<open>The digit runs, position by position.\<close>

lemma digit_runs_Nil: "digit_runs [] = []"
  by (subst digit_runs.simps) simp

lemma digit_runs_skip: "\<not> py_isdigit c \<Longrightarrow> digit_runs (c # s) = digit_runs s"
  by (subst digit_runs.simps, subst (2) digit_runs.simps) simp

lemma digit_runs_digit:
  "py_isdigit c \<Longrightarrow>
   digit_runs (c # s) = (c # takeWhile py_isdigit s) # digit_runs (dropWhile py_isdigit s)"
  by (subst digit_runs.simps) simp

lemma digit_runs_no_digit_ahead:
  "no_digit_ahead s \<Longrightarrow> takeWhile py_isdigit s = [] \<and> dropWhile py_isdigit s = s"
  by (cases s) (simp_all add: no_digit_ahead_def)

lemma digit_pieces_split:
  "digit_pieces s = pieces3 (takeWhile py_isdigit s) @ digit_pieces (dropWhile py_isdigit s)"
proof (cases s)
  case Nil
  then show ?thesis by (simp add: digit_pieces_def digit_runs_Nil)
next
  case (Cons c t)
  then show ?thesis
    by (cases "py_isdigit c") (simp_all add: digit_pieces_def digit_runs_digit)
qed

lemma findall_digit_pieces:
  "findall_from reference_pattern pre s adv
     = digit_pieces s"
proof (induction s arbitrary: pre adv rule: length_induct)
  case (1 s)
  note IH = 1 [rule_format]
  show ?case
  proof (cases s)
    case Nil
    then show ?thesis by (simp add: findall_end digit_pieces_def digit_runs_Nil)
  next
    case s1: (Cons c1 t1)
    show ?thesis
    proof (cases "py_isdigit c1")
      case False
      then show ?thesis
        using s1 IH [of t1] by (simp add: findall_skip digit_pieces_def digit_runs_skip)
    next
      case d1: True
      show ?thesis
      proof (cases "no_digit_ahead t1")
        case True
        then show ?thesis
          using s1 d1 IH [of t1] digit_pieces_split [of s]
          by (simp add: findall_one digit_runs_no_digit_ahead)
      next
        case False
        then obtain c2 t2 where s2: "t1 = c2 # t2" and d2: "py_isdigit c2"
          by (cases t1) (auto simp: no_digit_ahead_def)
        show ?thesis
        proof (cases "no_digit_ahead t2")
          case True
          then show ?thesis
            using s1 s2 d1 d2 IH [of t2] digit_pieces_split [of s]
            by (simp add: findall_two digit_runs_no_digit_ahead)
        next
          case False
          then obtain c3 t3 where s3: "t2 = c3 # t3" and d3: "py_isdigit c3"
            by (cases t2) (auto simp: no_digit_ahead_def)
          show ?thesis
            using s1 s2 s3 d1 d2 d3 IH [of t3] digit_pieces_split [of s] digit_pieces_split [of t3]
            by (simp add: findall_three)
        qed
      qed
    qed
  qed
qed

lemma references_digit_pieces: "extract_footnote_references content = digit_pieces content"
  by (simp add: extract_footnote_references_def re_findall_def findall_digit_pieces)

lemma pieces3_short: "length r \<le> 3 \<Longrightarrow> r \<noteq> [] \<Longrightarrow> pieces3 r = [r]"
  by (cases r rule: pieces3.cases) simp_all

lemma digit_runs_nonempty: "r \<in> set (digit_runs s) \<Longrightarrow> r \<noteq> []"
proof (induction s arbitrary: r rule: length_induct)
  case (1 s)
  note IH = 1(1) [rule_format] and mem = 1(2)
  show ?case
  proof (cases s)
    case Nil
    with mem show ?thesis by (simp add: digit_runs_Nil)
  next
    case (Cons c t)
    show ?thesis
    proof (cases "py_isdigit c")
      case False
      with mem Cons have "r \<in> set (digit_runs t)" by (simp add: digit_runs_skip)
      with IH [of t r] Cons show ?thesis by simp
    next
      case True
      with mem Cons have "r = c # takeWhile py_isdigit t \<or> r \<in> set (digit_runs (dropWhile py_isdigit t))"
        by (simp add: digit_runs_digit)
      moreover have "length (dropWhile py_isdigit t) < length s"
        using Cons length_dropWhile_le [of py_isdigit t] by simp
      ultimately show ?thesis using IH [of "dropWhile py_isdigit t" r] by auto
    qed
  qed
qed

lemma short_runs_pieces:
  assumes "\<forall>r \<in> set rs. length r \<le> 3 \<and> r \<noteq> []"
  shows "concat (map pieces3 rs) = rs"
  using assms by (induction rs) (simp_all add: pieces3_short)

lemma digit_pieces_standalone:
  assumes "\<forall>r \<in> set (digit_runs s). length r \<le> 3"
  shows "digit_pieces s = standalone_digit_runs s"
proof -
  have "\<forall>r \<in> set (digit_runs s). length r \<le> 3 \<and> r \<noteq> []"
    using assms digit_runs_nonempty by blast
  then have "concat (map pieces3 (digit_runs s)) = digit_runs s"
    by (rule short_runs_pieces)
  moreover have "filter (\<lambda>r. length r \<le> 3) (digit_runs s) = digit_runs s"
    using assms by (simp add: filter_id_conv)
  ultimately show ?thesis by (simp add: digit_pieces_def standalone_digit_runs_def)
qed

lemma example_runs:
  "digit_runs example_content = [''2014''] \<and> standalone_digit_runs example_content = []
   \<and> digit_runs example_content2 = [''12'', ''345'']
   \<and> standalone_digit_runs example_content2 = [''12'', ''345'']"
  by code_simp

text \<open>
  Claim C6 fails as stated. The content of the example paragraph holds the
  number 2014 and no other digit. It has no digit run of one to three digits
  that stands alone, but its \<^verbatim>\<open>footnote_references\<close> are the two pieces
  201 and 4 of the longer run.
\<close>

theorem C6_references_counterexample:
  "extract_paragraphs_ocr HYBRID_CHUNKING_CONFIG [example_line] 0 = [example_paragraph]
   \<and> footnote_references example_paragraph = [''201'', ''4'']
   \<and> digit_runs (para_content example_paragraph) = [''2014'']
   \<and> standalone_digit_runs (para_content example_paragraph) = []"
  using example_scan(1) example_runs
  by (simp add: example_paragraph_def)

text \<open>
  Claim C6, amended. For every paragraph emitted, \<^verbatim>\<open>footnote_references\<close>
  is the ordered sequence of the pieces obtained by cutting each maximal
  digit run of the content, from its left end, into pieces of three digits,
  the last piece of a run being shorter when its length is not a multiple of
  three. When no digit run of the content has more than three digits, this is
  the sequence of the standalone digit runs of one to three digits.
\<close>

theorem C6_references_digit_pieces:
  "p \<in> set (extract_paragraphs_ocr cfg lines page_num) \<Longrightarrow>
   footnote_references p = digit_pieces (para_content p)
   \<and> ((\<forall>r \<in> set (digit_runs (para_content p)). length r \<le> 3)
        \<longrightarrow> footnote_references p = standalone_digit_runs (para_content p))"
  using emitted_fields [of p cfg lines page_num]
  by (simp add: references_digit_pieces digit_pieces_standalone)

text \<open>The two example paragraphs: the pieces of 2014, and the standalone runs 12 and 345.\<close>

theorem C6_references_digit_pieces_witness:
  "example_paragraph \<in> set (extract_paragraphs_ocr HYBRID_CHUNKING_CONFIG [example_line] 0)
   \<and> footnote_references example_paragraph = digit_pieces (para_content example_paragraph)
   \<and> digit_pieces (para_content example_paragraph) = [''201'', ''4'']
   \<and> example_paragraph2 \<in> set (extract_paragraphs_ocr HYBRID_CHUNKING_CONFIG [example_line2] 0)
   \<and> digit_runs (para_content example_paragraph2) = [''12'', ''345'']
   \<and> footnote_references example_paragraph2 = standalone_digit_runs (para_content example_paragraph2)
   \<and> standalone_digit_runs (para_content example_paragraph2) = [''12'', ''345'']"
proof -
  have m1: "example_paragraph \<in> set (extract_paragraphs_ocr HYBRID_CHUNKING_CONFIG [example_line] 0)"
    using example_scan(1) by simp
  have m2: "example_paragraph2 \<in> set (extract_paragraphs_ocr HYBRID_CHUNKING_CONFIG [example_line2] 0)"
    using example_scan(2) by simp
  have runs: "digit_runs (para_content example_paragraph2) = [''12'', ''345'']"
    using example_runs by (simp add: example_paragraph2_def)
  then have short: "\<forall>r \<in> set (digit_runs (para_content example_paragraph2)). length r \<le> 3"
    by simp
  have a: "footnote_references example_paragraph = digit_pieces (para_content example_paragraph)"
    using C6_references_digit_pieces [OF m1] by (rule conjunct1)
  have a': "digit_pieces (para_content example_paragraph) = [''201'', ''4'']"
    using a by (simp add: example_paragraph_def)
  have b: "footnote_references example_paragraph2
             = standalone_digit_runs (para_content example_paragraph2)"
    using C6_references_digit_pieces [OF m2] short by blast
  have c: "standalone_digit_runs (para_content example_paragraph2) = [''12'', ''345'']"
    using example_runs by (simp add: example_paragraph2_def)
  from m1 a a' m2 runs b c show ?thesis by (intro conjI)
qed

section \<open>The high-number fallback\<close>

text \<open>What a greedy repetition returns: some characters consumed, all of them accepted.\<close>

lemma rep_atom_shape:
  "(pre', s') \<in> set (rep_atom ic a lo hi pre s) \<Longrightarrow>
   \<exists>k. pre' = rev (take k s) @ pre \<and> s' = drop k s \<and> k \<le> length s
       \<and> (\<forall>x \<in> set (take k s). atom_ok ic a x)"
proof (induction s arbitrary: lo hi pre)
  case Nil
  then show ?case by (auto split: if_splits)
next
  case (Cons c cs)
  from Cons.prems consider
      (step) "atom_ok ic a c"
        "(pre', s') \<in> set (rep_atom ic a (lo - 1) (map_option (\<lambda>h. h - 1) hi) (c # pre) cs)"
    | (stop) "pre' = pre" "s' = c # cs"
    by (auto split: if_splits)
  then show ?case
  proof cases
    case step
    from Cons.IH [OF step(2)] obtain k where
      k: "pre' = rev (take k cs) @ c # pre" "s' = drop k cs" "k \<le> length cs"
         "\<forall>x \<in> set (take k cs). atom_ok ic a x"
      by auto
    show ?thesis
      by (rule exI [of _ "Suc k"]) (use k step(1) in simp)
  next
    case stop
    show ?thesis
      by (rule exI [of _ 0]) (use stop in simp)
  qed
qed

text \<open>Lowering the least number of repetitions keeps every result.\<close>

lemma rep_atom_lo_mono:
  "lo' \<le> lo \<Longrightarrow> set (rep_atom ic a lo hi pre s) \<subseteq> set (rep_atom ic a lo' hi pre s)"
proof (induction s arbitrary: lo lo' hi pre)
  case Nil
  then show ?case by auto
next
  case (Cons c cs)
  have "lo' - 1 \<le> lo - 1" using Cons.prems by simp
  from Cons.IH [OF this] Cons.prems show ?case by auto
qed

lemma matches_at_nonempty:
  "matches_at ic p cur \<noteq> [] \<longleftrightarrow>
     (\<exists>c1 \<in> set (ms ic (before p) cur). \<exists>c2 \<in> set (ms ic (number_group p) c1).
        ms ic (after p) c2 \<noteq> [])"
  by (auto simp: matches_at_def)

lemma matches_at_member:
  "m \<in> set (matches_at ic p cur) \<longleftrightarrow>
     (\<exists>c1 \<in> set (ms ic (before p) cur). \<exists>c2 \<in> set (ms ic (number_group p) c1).
        \<exists>c3 \<in> set (ms ic (after p) c2).
          m = \<lparr>group1 = between c1 c2, match_start = cur, match_end = c3\<rparr>)"
  by (auto simp: matches_at_def)

lemma re_match_member: "re_match p s = Some m \<Longrightarrow> m \<in> set (matches_at False p ([], s))"
  by (auto simp: re_match_def split: list.splits)

lemma re_match_None: "re_match p s = None \<longleftrightarrow> matches_at False p ([], s) = []"
  by (auto simp: re_match_def split: list.splits)

text \<open>
  A pattern \<^verbatim>\<open>^(\d{lo,hi})\.\<close>..., matched at the start of a line, captures all
  the digits at the start of the line.
\<close>

lemma number_is_leading_digits:
  assumes p: "before p = Bol" "number_group p = Rep lo hi Digit"
    and dot: "\<And>c2. ms False (after p) c2 \<noteq> [] \<Longrightarrow> \<exists>t. snd c2 = CHR ''.'' # t"
    and m: "m \<in> set (matches_at False p ([], line))"
  shows "group1 m = takeWhile py_isdigit line"
proof -
  from m p obtain c2 c3 where
    c2: "c2 \<in> set (rep_atom False Digit lo hi [] line)"
    and c3: "c3 \<in> set (ms False (after p) c2)"
    and g: "group1 m = between ([], line) c2"
    by (auto simp: matches_at_member)
  from c3 have "ms False (after p) c2 \<noteq> []" by auto
  from dot [OF this] obtain t where t: "snd c2 = CHR ''.'' # t" by blast
  have "(fst c2, snd c2) \<in> set (rep_atom False Digit lo hi [] line)"
    using c2 by simp
  from rep_atom_shape [OF this] obtain k where
    k: "fst c2 = rev (take k line)" "snd c2 = drop k line" "k \<le> length line"
       "\<forall>x \<in> set (take k line). py_isdigit x"
    by auto
  have nd: "\<not> py_isdigit CHR ''.''" by (simp add: py_isdigit_def code_def)
  have "line = take k line @ CHR ''.'' # t"
    using k(2) t by (metis append_take_drop_id)
  then have "takeWhile py_isdigit line = takeWhile py_isdigit (take k line @ CHR ''.'' # t)"
    by simp
  also have "\<dots> = take k line"
    using k(4) nd by (simp add: takeWhile_tail)
  finally have tw: "takeWhile py_isdigit line = take k line" .
  have "between ([], line) c2 = take k line"
    using k(1,3) by (simp add: between_def)
  with g tw show ?thesis by simp
qed

lemma dot_then: "ms False (Seq (Atom (Chr CHR ''.'')) r) c2 \<noteq> [] \<Longrightarrow> \<exists>t. snd c2 = CHR ''.'' # t"
  by (cases "snd c2") (auto split: if_splits)

lemma dot_only: "ms False (Atom (Chr CHR ''.'')) c2 \<noteq> [] \<Longrightarrow> \<exists>t. snd c2 = CHR ''.'' # t"
  by (cases "snd c2") (auto split: if_splits)

lemma dot_then_dot:
  "ms False (Seq (Atom (Chr CHR ''.'')) r) c2 \<noteq> [] \<Longrightarrow> ms False (Atom (Chr CHR ''.'')) c2 \<noteq> []"
  by (cases "snd c2") (auto split: if_splits)

text \<open>Where a high-number pattern matches, both paragraph patterns match.\<close>

lemma high_implies_primary:
  assumes h: "h \<in> set (high_number_patterns HYBRID_CHUNKING_CONFIG)"
    and m: "matches_at False h ([], line) \<noteq> []"
  shows "matches_at False (paragraph_number_patterns HYBRID_CHUNKING_CONFIG ! 0) ([], line) \<noteq> []"
    and "matches_at False (paragraph_number_patterns HYBRID_CHUNKING_CONFIG ! 1) ([], line) \<noteq> []"
proof -
  from h obtain lo where lo: "1 \<le> lo"
    and hp: "before h = Bol" "number_group h = Rep lo (Some 4) Digit"
            "after h = Seq (Atom (Chr CHR ''.'')) (Rep 1 None Space)"
    by (auto simp: HYBRID_CHUNKING_CONFIG_def)
  from m hp obtain c2 where
    c2: "c2 \<in> set (rep_atom False Digit lo (Some 4) [] line)"
    and a: "ms False (Seq (Atom (Chr CHR ''.'')) (Rep 1 None Space)) c2 \<noteq> []"
    by (auto simp: matches_at_nonempty)
  from c2 rep_atom_lo_mono [OF lo] have c2': "c2 \<in> set (rep_atom False Digit 1 (Some 4) [] line)"
    by blast
  from c2' a
  show "matches_at False (paragraph_number_patterns HYBRID_CHUNKING_CONFIG ! 0) ([], line) \<noteq> []"
    unfolding matches_at_nonempty by (auto simp: HYBRID_CHUNKING_CONFIG_def simp del: rep_atom.simps ms.simps(6))
  from c2' dot_then_dot [OF a]
  show "matches_at False (paragraph_number_patterns HYBRID_CHUNKING_CONFIG ! 1) ([], line) \<noteq> []"
    unfolding matches_at_nonempty by (auto simp: HYBRID_CHUNKING_CONFIG_def simp del: rep_atom.simps)
qed

lemma fallback_unreachable:
  assumes "first_match (paragraph_number_patterns HYBRID_CHUNKING_CONFIG) line = None"
  shows "first_match (high_number_patterns HYBRID_CHUNKING_CONFIG) line = None"
proof -
  from assms have "re_match (paragraph_number_patterns HYBRID_CHUNKING_CONFIG ! 0) line = None"
    by (simp add: HYBRID_CHUNKING_CONFIG_def split: option.splits)
  then have none: "matches_at False (paragraph_number_patterns HYBRID_CHUNKING_CONFIG ! 0) ([], line) = []"
    by (simp add: re_match_None)
  have "re_match h line = None" if "h \<in> set (high_number_patterns HYBRID_CHUNKING_CONFIG)" for h
    using high_implies_primary(1) [OF that, of line] none by (auto simp: re_match_None)
  then have "\<forall>h \<in> set (high_number_patterns HYBRID_CHUNKING_CONFIG). re_match h line = None"
    by blast
  then show ?thesis
    by (induction "high_number_patterns HYBRID_CHUNKING_CONFIG") (simp_all add: HYBRID_CHUNKING_CONFIG_def)
qed

lemma find_para_match_primary:
  "find_para_match HYBRID_CHUNKING_CONFIG line
     = find_para_match (HYBRID_CHUNKING_CONFIG\<lparr>high_number_patterns := []\<rparr>) line"
  using fallback_unreachable [of line]
  by (simp add: find_para_match_def split: option.splits)

text \<open>
  Claim C10. Under the default configuration, for every line: whenever one of
  the \<^verbatim>\<open>high_number_patterns\<close> matches at the start of the line, the
  paragraph pattern \<^verbatim>\<open>^(\d{1,4})\.\<close> matches there too and captures the
  same number. The fallback is therefore never taken, and the scan with the
  paragraph patterns alone gives the same paragraphs as the full scan, for
  every sequence of lines and every page.
\<close>

theorem C10_fallback_unreachable:
  "(\<forall>h \<in> set (high_number_patterns HYBRID_CHUNKING_CONFIG). \<forall>m.
      re_match h line = Some m \<longrightarrow>
        (\<exists>m'. re_match (paragraph_number_patterns HYBRID_CHUNKING_CONFIG ! 1) line = Some m'
              \<and> group1 m' = group1 m))
   \<and> paragraph_number_patterns HYBRID_CHUNKING_CONFIG ! 1
       = \<lparr>before = Bol, number_group = Rep 1 (Some 4) Digit, after = Atom (Chr CHR ''.'')\<rparr>
   \<and> extract_paragraphs_ocr HYBRID_CHUNKING_CONFIG lines page_num
       = extract_paragraphs_ocr (HYBRID_CHUNKING_CONFIG\<lparr>high_number_patterns := []\<rparr>) lines page_num"
proof (intro conjI ballI allI impI)
  fix h m
  assume h: "h \<in> set (high_number_patterns HYBRID_CHUNKING_CONFIG)"
    and m: "re_match h line = Some m"
  let ?p = "paragraph_number_patterns HYBRID_CHUNKING_CONFIG ! 1"
  from m have mem: "m \<in> set (matches_at False h ([], line))" by (rule re_match_member)
  then have ne: "matches_at False h ([], line) \<noteq> []" by auto
  from h have hp: "before h = Bol" "\<exists>lo. number_group h = Rep lo (Some 4) Digit"
    "after h = Seq (Atom (Chr CHR ''.'')) (Rep 1 None Space)"
    by (auto simp: HYBRID_CHUNKING_CONFIG_def)
  then obtain lo where lo: "number_group h = Rep lo (Some 4) Digit" by blast
  have gm: "group1 m = takeWhile py_isdigit line"
    by (rule number_is_leading_digits [OF hp(1) lo _ mem]) (simp only: hp(3), rule dot_then)
  from high_implies_primary(2) [OF h ne] have "re_match ?p line \<noteq> None"
    by (simp only: re_match_None not_False_eq_True)
  then obtain m' where m': "re_match ?p line = Some m'"
    by blast
  then have mem': "m' \<in> set (matches_at False ?p ([], line))" by (rule re_match_member)
  have pp: "before ?p = Bol" "number_group ?p = Rep 1 (Some 4) Digit" "after ?p = Atom (Chr CHR ''.'')"
    by (simp_all add: HYBRID_CHUNKING_CONFIG_def)
  have "group1 m' = takeWhile py_isdigit line"
    by (rule number_is_leading_digits [OF pp(1,2) _ mem']) (simp only: pp(3), rule dot_only)
  with gm m' show "\<exists>m'. re_match ?p line = Some m' \<and> group1 m' = group1 m" by simp
next
  show "paragraph_number_patterns HYBRID_CHUNKING_CONFIG ! 1
       = \<lparr>before = Bol, number_group = Rep 1 (Some 4) Digit, after = Atom (Chr CHR ''.'')\<rparr>"
    by (simp add: HYBRID_CHUNKING_CONFIG_def)
next
  have "paragraph_line HYBRID_CHUNKING_CONFIG page_num
      = paragraph_line (HYBRID_CHUNKING_CONFIG\<lparr>high_number_patterns := []\<rparr>) page_num"
    by (intro ext) (simp add: paragraph_line_def find_para_match_primary)
  then show "extract_paragraphs_ocr HYBRID_CHUNKING_CONFIG lines page_num
       = extract_paragraphs_ocr (HYBRID_CHUNKING_CONFIG\<lparr>high_number_patterns := []\<rparr>) lines page_num"
    by (simp add: extract_paragraphs_ocr_def)
qed

lemma high_example:
  "re_match (hd (high_number_patterns HYBRID_CHUNKING_CONFIG)) ''4289. x''
     = Some \<lparr>group1 = ''4289'', match_start = ([], ''4289. x''), match_end = ('' .9824'', ''x'')\<rparr>"
  by code_simp

text \<open>The line \<^verbatim>\<open>4289. x\<close>: the first high-number pattern captures 4289, and so does the paragraph pattern.\<close>

theorem C10_fallback_unreachable_witness:
  "hd (high_number_patterns HYBRID_CHUNKING_CONFIG) \<in> set (high_number_patterns HYBRID_CHUNKING_CONFIG)
   \<and> map_option group1 (re_match (hd (high_number_patterns HYBRID_CHUNKING_CONFIG)) ''4289. x'')
       = Some ''4289''
   \<and> map_option group1 (re_match (paragraph_number_patterns HYBRID_CHUNKING_CONFIG ! 1) ''4289. x'')
       = Some ''4289''"
proof -
  have mem: "hd (high_number_patterns HYBRID_CHUNKING_CONFIG)
               \<in> set (high_number_patterns HYBRID_CHUNKING_CONFIG)"
    by (simp add: HYBRID_CHUNKING_CONFIG_def)
  have "\<forall>h \<in> set (high_number_patterns HYBRID_CHUNKING_CONFIG). \<forall>m.
      re_match h ''4289. x'' = Some m \<longrightarrow>
        (\<exists>m'. re_match (paragraph_number_patterns HYBRID_CHUNKING_CONFIG ! 1) ''4289. x'' = Some m'
              \<and> group1 m' = group1 m)"
    using C10_fallback_unreachable [of "''4289. x''" "[]" 0] by (rule conjunct1)
  with mem high_example obtain m' where
    "re_match (paragraph_number_patterns HYBRID_CHUNKING_CONFIG ! 1) ''4289. x'' = Some m'"
    "group1 m' = ''4289''"
    by fastforce
  with mem high_example show ?thesis by simp
qed


section \<open>The footnote recognizer\<close>


















end
